theory Spec2Isabelle
  imports Complex_Main "HOL-Library.Sublist"
begin

section \<open>Strings\<close>

text \<open>
  JavaScript strings are modelled as \<open>string\<close>: ASCII text as it is, any other character
  as the bytes of its UTF-8 encoding. Case conversion is that of ASCII; white space is
  that of the language, ASCII or not.
\<close>

definition lowerChar :: "char \<Rightarrow> char" where
  "lowerChar c =
     (case map_of (zip ''ABCDEFGHIJKLMNOPQRSTUVWXYZ'' ''abcdefghijklmnopqrstuvwxyz'') c of
        Some d \<Rightarrow> d
      | None \<Rightarrow> c)"

definition toLowerCase :: "string \<Rightarrow> string" where
  "toLowerCase = map lowerChar"

text \<open>\<^verbatim>\<open>s.includes(sub)\<close>: \<open>sub\<close> occurs in \<open>s\<close> as a run of consecutive characters.\<close>

fun includes_str :: "string \<Rightarrow> string \<Rightarrow> bool" where
  "includes_str [] sub = (sub = [])"
| "includes_str (c # cs) sub = (prefix sub (c # cs) \<or> includes_str cs sub)"

text \<open>
  The white space that \<^verbatim>\<open>String.prototype.trim\<close> strips (\<^verbatim>\<open>WhiteSpace\<close> and
  \<^verbatim>\<open>LineTerminator\<close>), each character as the bytes of its UTF-8 encoding: U+0009 to
  U+000D, U+0020, U+00A0, U+1680, U+2000 to U+200A, U+2028, U+2029, U+202F, U+205F, U+3000
  and U+FEFF.
\<close>

definition whiteSpace :: "string list" where
  "whiteSpace =
     [[CHR 0x09], [CHR 0x0A], [CHR 0x0B], [CHR 0x0C], [CHR 0x0D], [CHR 0x20],
      [CHR 0xC2, CHR 0xA0],
      [CHR 0xE1, CHR 0x9A, CHR 0x80],
      [CHR 0xE2, CHR 0x80, CHR 0x80], [CHR 0xE2, CHR 0x80, CHR 0x81],
      [CHR 0xE2, CHR 0x80, CHR 0x82], [CHR 0xE2, CHR 0x80, CHR 0x83],
      [CHR 0xE2, CHR 0x80, CHR 0x84], [CHR 0xE2, CHR 0x80, CHR 0x85],
      [CHR 0xE2, CHR 0x80, CHR 0x86], [CHR 0xE2, CHR 0x80, CHR 0x87],
      [CHR 0xE2, CHR 0x80, CHR 0x88], [CHR 0xE2, CHR 0x80, CHR 0x89],
      [CHR 0xE2, CHR 0x80, CHR 0x8A],
      [CHR 0xE2, CHR 0x80, CHR 0xA8], [CHR 0xE2, CHR 0x80, CHR 0xA9],
      [CHR 0xE2, CHR 0x80, CHR 0xAF],
      [CHR 0xE2, CHR 0x81, CHR 0x9F],
      [CHR 0xE3, CHR 0x80, CHR 0x80],
      [CHR 0xEF, CHR 0xBB, CHR 0xBF]]"

text \<open>
  Whatever stands at the front of \<open>s\<close> and is one of the given byte sequences is taken
  off, again and again until none of them stands there.
\<close>

function stripLeading :: "string list \<Rightarrow> string \<Rightarrow> string" where
  "stripLeading seqs s =
     (case find (\<lambda>w. w \<noteq> [] \<and> prefix w s) seqs of
        Some w \<Rightarrow> stripLeading seqs (drop (length w) s)
      | None \<Rightarrow> s)"
  by pat_completeness auto
termination
proof (relation "measure (\<lambda>(seqs, s). length s)")
  show "wf (measure (\<lambda>(seqs, s). length s))" by simp
next
  fix seqs :: "string list" and s w :: string
  assume "find (\<lambda>w. w \<noteq> [] \<and> prefix w s) seqs = Some w"
  then have "w \<noteq> []" "prefix w s"
    by (auto simp: find_Some_iff)
  then have "0 < length w" "length w \<le> length s"
    by (simp_all add: prefix_length_le)
  then have "length s - length w < length s"
    by arith
  then show "((seqs, drop (length w) s), (seqs, s)) \<in> measure (\<lambda>(seqs, s). length s)"
    by simp
qed

declare stripLeading.simps [simp del]

text \<open>
  \<^verbatim>\<open>s.trim()\<close>: the white space at the front goes, then the white space at the end (a
  character stands at the end of \<open>s\<close> when its bytes, in reverse, stand at the front of
  the reverse of \<open>s\<close>).
\<close>

definition trimStart :: "string \<Rightarrow> string" where
  "trimStart s = stripLeading whiteSpace s"

definition trimEnd :: "string \<Rightarrow> string" where
  "trimEnd s = rev (stripLeading (map rev whiteSpace) (rev s))"

definition trim :: "string \<Rightarrow> string" where
  "trim s = trimEnd (trimStart s)"

definition isDigit :: "char \<Rightarrow> bool" where
  "isDigit c = (c \<in> set ''0123456789'')"

text \<open>\<^verbatim>\<open>s.split(sep)\<close> for a separator of one character; the empty string gives one empty piece.\<close>

fun split :: "char \<Rightarrow> string \<Rightarrow> string list" where
  "split sep [] = [[]]"
| "split sep (c # cs) =
     (if c = sep then [] # split sep cs
      else (case split sep cs of piece # pieces \<Rightarrow> (c # piece) # pieces | [] \<Rightarrow> [[c]]))"

text \<open>\<^verbatim>\<open>s.match(/\d+/)\<close>: the first run of digits, if there is one.\<close>

definition matchDigits :: "string \<Rightarrow> string option" where
  "matchDigits s =
     (let run = takeWhile isDigit (dropWhile (\<lambda>c. \<not> isDigit c) s)
      in if run = [] then None else Some run)"

text \<open>
  \<^verbatim>\<open>s.match(/\{[\s\S]*\}/)\<close>: from the first opening brace to the last closing brace
  after it, if there is one.
\<close>

definition jsonMatch :: "string \<Rightarrow> string option" where
  "jsonMatch s =
     (let fromBrace = dropWhile (\<lambda>c. c \<noteq> CHR ''{'') s
      in if CHR ''}'' \<in> set fromBrace
         then Some (rev (dropWhile (\<lambda>c. c \<noteq> CHR ''}'') (rev fromBrace)))
         else None)"

text \<open>The decimal digits of a number, as string concatenation prints it.\<close>

fun decimal :: "nat \<Rightarrow> string" where
  "decimal n =
     (if n < 10 then [''0123456789'' ! n]
      else decimal (n div 10) @ [''0123456789'' ! (n mod 10)])"

section \<open>Camera facade: rate-limited frame capture (camera.js, CameraManager)\<close>

text \<open>
  The fields of \<^verbatim>\<open>CameraManager\<close> that \<^verbatim>\<open>captureFrame\<close> reads or writes.
  \<open>videoElement\<close> records whether the constructor found the video element
  (a DOM node or \<^verbatim>\<open>null\<close>); times are milliseconds as returned by \<^verbatim>\<open>Date.now()\<close>.
\<close>

record CameraManager =
  videoElement :: bool
  isActive :: bool
  captureCount :: nat
  lastCaptureTime :: int

text \<open>
  What one call of \<^verbatim>\<open>captureFrame\<close> reads from the browser: the clock, the
  dimensions of the video and the data URL that the canvas produces for the frame.
\<close>

record capture_env =
  now :: int
  videoWidth :: nat
  videoHeight :: nat
  toDataURL :: string

text \<open>The two ways the camera facade reports to the user.\<close>

datatype camera_signal = ShowError string | ShowHint string

text \<open>
  \<^verbatim>\<open>captureFrame\<close>: the result (\<open>None\<close> is \<^verbatim>\<open>null\<close>), the manager after the
  call and the signals raised, in the order of the source's three guards. The arguments
  \<^verbatim>\<open>quality\<close> and \<^verbatim>\<open>maxWidth\<close> only steer the scaling and the encoding of the frame, which
  are the browser's: their outcome is the data URL of the environment.
\<close>

definition captureFrame ::
  "CameraManager \<Rightarrow> capture_env \<Rightarrow> string option \<times> CameraManager \<times> camera_signal list" where
  "captureFrame cam env =
     (if \<not> isActive cam \<or> \<not> videoElement cam then
        (None, cam, [ShowError ''Camera not active''])
      else if now env - lastCaptureTime cam < 6000 then
        (None, cam, [ShowHint ''Please wait a moment before another capture''])
      else if videoWidth env = 0 \<or> videoHeight env = 0 then
        (None, cam, [ShowError ''Video not ready yet''])
      else
        (Some (toDataURL env),
         cam\<lparr>captureCount := captureCount cam + 1, lastCaptureTime := now env\<rparr>,
         [ShowHint ''Frame captured! Sending to AI...'']))"

text \<open>A run of calls, one per environment, threading the manager through.\<close>

fun captureFrames ::
  "CameraManager \<Rightarrow> capture_env list \<Rightarrow> (string option \<times> camera_signal list) list \<times> CameraManager" where
  "captureFrames cam [] = ([], cam)"
| "captureFrames cam (env # envs) =
     (case captureFrame cam env of
        (r, cam', sigs) \<Rightarrow>
          (case captureFrames cam' envs of (rs, cam'') \<Rightarrow> ((r, sigs) # rs, cam'')))"

definition tooSoon :: "string option \<times> camera_signal list" where
  "tooSoon = (None, [ShowHint ''Please wait a moment before another capture''])"

section \<open>Speech facade: the utterance queue (speech module, SpeechManager)\<close>

text \<open>
  An utterance as \<^verbatim>\<open>speak\<close> creates it: its text, and the callback that its
  \<^verbatim>\<open>onend\<close> and \<^verbatim>\<open>onerror\<close> handlers close over (\<open>None\<close> is \<^verbatim>\<open>null\<close>; a callback is
  identified by a number).
\<close>

record utterance =
  utteranceText :: string
  callback :: "nat option"

text \<open>The two calls the facade makes on the browser's \<^verbatim>\<open>speechSynthesis\<close>.\<close>

datatype synthesis_call = Speak utterance | Cancel

text \<open>
  The state of the facade. \<open>synthesis\<close> tells whether \<^verbatim>\<open>window.speechSynthesis\<close> exists;
  \<open>aiSpeechEnabled\<close> is \<^verbatim>\<open>AppState.preferences.aiSpeechEnabled\<close>, the one preference the
  facade reads and toggles. \<open>synthesisCalls\<close> is the log of the calls made on the browser,
  \<open>callbacksRun\<close> the log of the callbacks invoked and \<open>speechStatus\<close> the last message
  given to \<^verbatim>\<open>updateSpeechStatus('speech', ...)\<close>.
\<close>

record SpeechManager =
  synthesis :: bool
  aiSpeechEnabled :: bool
  isSpeaking :: bool
  currentUtterance :: "utterance option"
  utteranceQueue :: "string list"
  synthesisCalls :: "synthesis_call list"
  callbacksRun :: "nat list"
  speechStatus :: string

definition runCallback :: "nat option \<Rightarrow> SpeechManager \<Rightarrow> SpeechManager" where
  "runCallback cb s = (case cb of None \<Rightarrow> s | Some c \<Rightarrow> s\<lparr>callbacksRun := callbacksRun s @ [c]\<rparr>)"

definition stopSpeaking :: "SpeechManager \<Rightarrow> SpeechManager" where
  "stopSpeaking s =
     (if synthesis s \<and> isSpeaking s then
        s\<lparr>synthesisCalls := synthesisCalls s @ [Cancel],
          isSpeaking := False,
          currentUtterance := None,
          utteranceQueue := [],
          speechStatus := ''Stopped''\<rparr>
      else s)"

text \<open>
  \<^verbatim>\<open>speak(text, callback)\<close>. The comparison \<^verbatim>\<open>this.currentUtterance?.text === text\<close> is
  false when there is no current utterance.
\<close>

definition speak :: "string \<Rightarrow> nat option \<Rightarrow> SpeechManager \<Rightarrow> SpeechManager" where
  "speak txt cb s =
     (if \<not> synthesis s \<or> \<not> aiSpeechEnabled s then runCallback cb s
      else if isSpeaking s \<and> map_option utteranceText (currentUtterance s) = Some txt then s
      else
        (let s1 = stopSpeaking s
         in s1\<lparr>synthesisCalls :=
                  synthesisCalls s1 @ [Speak \<lparr>utteranceText = txt, callback = cb\<rparr>]\<rparr>))"

text \<open>The three handlers that \<^verbatim>\<open>speak\<close> installs on the utterance \<open>u\<close> it creates.\<close>

definition onstart :: "utterance \<Rightarrow> SpeechManager \<Rightarrow> SpeechManager" where
  "onstart u s = s\<lparr>isSpeaking := True, currentUtterance := Some u, speechStatus := ''Speaking...''\<rparr>"

definition finished :: "string \<Rightarrow> utterance \<Rightarrow> SpeechManager \<Rightarrow> SpeechManager" where
  "finished status u s =
     (let s1 = s\<lparr>isSpeaking := False, currentUtterance := None, speechStatus := status\<rparr>
      in case utteranceQueue s1 of
           nextText # rest \<Rightarrow> speak nextText (callback u) (s1\<lparr>utteranceQueue := rest\<rparr>)
         | [] \<Rightarrow> runCallback (callback u) s1)"

definition onend :: "utterance \<Rightarrow> SpeechManager \<Rightarrow> SpeechManager" where
  "onend = finished ''Ready''"

definition onerror :: "utterance \<Rightarrow> SpeechManager \<Rightarrow> SpeechManager" where
  "onerror = finished ''Error''"

definition queueSpeech :: "string \<Rightarrow> SpeechManager \<Rightarrow> SpeechManager" where
  "queueSpeech txt s =
     (if isSpeaking s then s\<lparr>utteranceQueue := utteranceQueue s @ [txt]\<rparr>
      else speak txt None s)"

definition toggleSpeech :: "SpeechManager \<Rightarrow> bool \<times> SpeechManager" where
  "toggleSpeech s =
     (let s1 = s\<lparr>aiSpeechEnabled := \<not> aiSpeechEnabled s\<rparr>;
          s2 = (if \<not> aiSpeechEnabled s1 then stopSpeaking s1 else s1);
          s3 = s2\<lparr>speechStatus := (if aiSpeechEnabled s2 then ''Ready'' else ''Disabled'')\<rparr>
      in (aiSpeechEnabled s3, s3))"

text \<open>
  What can happen to the facade: a call of one of its methods, or the browser firing a
  handler of an utterance. A run applies a list of these in order.
\<close>

datatype speech_event =
    CallSpeak string "nat option"
  | CallQueueSpeech string
  | CallStopSpeaking
  | CallToggleSpeech
  | FireStart utterance
  | FireEnd utterance
  | FireError utterance

fun speechStep :: "SpeechManager \<Rightarrow> speech_event \<Rightarrow> SpeechManager" where
  "speechStep s (CallSpeak txt cb) = speak txt cb s"
| "speechStep s (CallQueueSpeech txt) = queueSpeech txt s"
| "speechStep s CallStopSpeaking = stopSpeaking s"
| "speechStep s CallToggleSpeech = snd (toggleSpeech s)"
| "speechStep s (FireStart u) = onstart u s"
| "speechStep s (FireEnd u) = onend u s"
| "speechStep s (FireError u) = onerror u s"

definition speechRun :: "SpeechManager \<Rightarrow> speech_event list \<Rightarrow> SpeechManager" where
  "speechRun = foldl speechStep"

text \<open>
  The browser playing out queued texts one after the other: each utterance handed to it
  starts and then ends before anything else happens. \<open>cb\<close> is the callback that the
  handlers pass along.
\<close>

fun playOut :: "nat option \<Rightarrow> string list \<Rightarrow> speech_event list" where
  "playOut cb [] = []"
| "playOut cb (t # ts) =
     FireStart \<lparr>utteranceText = t, callback = cb\<rparr>
       # FireEnd \<lparr>utteranceText = t, callback = cb\<rparr> # playOut cb ts"

text \<open>A handler of an utterance that has ended, failed or been cancelled.\<close>

fun isCompletion :: "speech_event \<Rightarrow> bool" where
  "isCompletion (FireEnd u) = True"
| "isCompletion (FireError u) = True"
| "isCompletion _ = False"

section \<open>JSON values and \<^verbatim>\<open>JSON.parse\<close>\<close>

text \<open>
  The values that \<^verbatim>\<open>JSON.parse\<close> and \<^verbatim>\<open>response.json()\<close> produce. A number is kept as
  the exact value of its literal (the program only ever asks whether a number is zero; a
  literal too small for a double is zero in JavaScript and not here). An object keeps its
  members in the order of the text.
\<close>

datatype json =
    JNull
  | JBool bool
  | JNum rat
  | JStr string
  | JArr "json list"
  | JObj "(string \<times> json) list"

datatype token = TLBrace | TRBrace | TLBracket | TRBracket | TColon | TComma | TScalar json

definition isJsonSpace :: "char \<Rightarrow> bool" where
  "isJsonSpace c = (c \<in> set [CHR '' '', CHR 0x09, CHR 0x0A, CHR 0x0D])"

definition hexValue :: "char \<Rightarrow> nat option" where
  "hexValue c =
     map_of (zip ''0123456789abcdefABCDEF''
               [0, 1, 2, 3, 4, 5, 6, 7, 8, 9, 10, 11, 12, 13, 14, 15, 10, 11, 12, 13, 14, 15]) c"

text \<open>The code unit of the four hexadecimal digits of a \<^verbatim>\<open>\u\<close> escape.\<close>

definition hex4 :: "string \<Rightarrow> nat option" where
  "hex4 s =
     (case map hexValue (take 4 s) of
        [Some a, Some b, Some c, Some d] \<Rightarrow> Some (((a * 16 + b) * 16 + c) * 16 + d)
      | _ \<Rightarrow> None)"

text \<open>The UTF-8 bytes of a code point.\<close>

definition utf8 :: "nat \<Rightarrow> string" where
  "utf8 n =
     (if n < 0x80 then [char_of n]
      else if n < 0x800 then [char_of (0xC0 + n div 0x40), char_of (0x80 + n mod 0x40)]
      else if n < 0x10000 then
        [char_of (0xE0 + n div 0x1000), char_of (0x80 + n div 0x40 mod 0x40),
         char_of (0x80 + n mod 0x40)]
      else
        [char_of (0xF0 + n div 0x40000), char_of (0x80 + n div 0x1000 mod 0x40),
         char_of (0x80 + n div 0x40 mod 0x40), char_of (0x80 + n mod 0x40)])"

definition simpleEscape :: "char \<Rightarrow> char option" where
  "simpleEscape c =
     map_of [(CHR 0x22, CHR 0x22), (CHR 0x5C, CHR 0x5C), (CHR ''/'', CHR ''/''),
             (CHR ''b'', CHR 0x08), (CHR ''f'', CHR 0x0C), (CHR ''n'', CHR 0x0A),
             (CHR ''r'', CHR 0x0D), (CHR ''t'', CHR 0x09)] c"

text \<open>
  The body of a string literal, after its opening quote: the string it denotes and the
  number of characters read, closing quote included. A high surrogate escape followed by
  a low surrogate escape denotes one code point.
\<close>

fun lexString :: "string \<Rightarrow> (string \<times> nat) option" where
  "lexString [] = None"
| "lexString (c # cs) =
     (if c = CHR 0x22 then Some ([], 1)
      else if c = CHR 0x5C then
        (case cs of
           [] \<Rightarrow> None
         | e # r \<Rightarrow>
             if e = CHR ''u'' then
               (case hex4 r of
                  None \<Rightarrow> None
                | Some hi \<Rightarrow>
                    (case (if 0xD800 \<le> hi \<and> hi < 0xDC00 \<and> take 2 (drop 4 r) = [CHR 0x5C, CHR ''u'']
                           then hex4 (drop 6 r) else None) of
                       Some lo \<Rightarrow>
                         if 0xDC00 \<le> lo \<and> lo < 0xE000 then
                           map_option
                             (\<lambda>(str, n). (utf8 (0x10000 + (hi - 0xD800) * 0x400 + (lo - 0xDC00)) @ str,
                                           n + 12))
                             (lexString (drop 10 r))
                         else
                           map_option (\<lambda>(str, n). (utf8 hi @ str, n + 6)) (lexString (drop 4 r))
                     | None \<Rightarrow>
                         map_option (\<lambda>(str, n). (utf8 hi @ str, n + 6)) (lexString (drop 4 r))))
             else
               (case simpleEscape e of
                  None \<Rightarrow> None
                | Some d \<Rightarrow> map_option (\<lambda>(str, n). (d # str, n + 2)) (lexString r)))
      else if of_char c < (0x20 :: nat) then None
      else map_option (\<lambda>(str, n). (c # str, n + 1)) (lexString cs))"

definition digitsValue :: "string \<Rightarrow> nat" where
  "digitsValue ds = foldl (\<lambda>n c. 10 * n + (of_char c - 48)) 0 ds"

text \<open>
  A number literal at the head of the text: its value and its length. The integer part
  has no leading zero, a fraction and an exponent have at least one digit.
\<close>

definition lexNumber :: "string \<Rightarrow> (rat \<times> nat) option" where
  "lexNumber s =
     (let neg = (take 1 s = ''-'');
          s1 = (if neg then drop 1 s else s);
          ip = takeWhile isDigit s1;
          s2 = dropWhile isDigit s1;
          hasFrac = (take 1 s2 = ''.'');
          fp = (if hasFrac then takeWhile isDigit (drop 1 s2) else []);
          s3 = (if hasFrac then dropWhile isDigit (drop 1 s2) else s2);
          hasExp = (take 1 s3 = ''e'' \<or> take 1 s3 = ''E'');
          s4 = (if hasExp then drop 1 s3 else s3);
          expSign = (if hasExp \<and> (take 1 s4 = ''+'' \<or> take 1 s4 = ''-'') then take 1 s4 else []);
          ep = (if hasExp then takeWhile isDigit (drop (length expSign) s4) else []);
          mantissa = (of_nat (digitsValue (ip @ fp)) :: rat) / 10 ^ length fp;
          scaled = (if expSign = ''-'' then mantissa / 10 ^ digitsValue ep
                    else mantissa * 10 ^ digitsValue ep)
      in if ip = [] \<or> (length ip > 1 \<and> hd ip = CHR ''0'') \<or> (hasFrac \<and> fp = [])
            \<or> (hasExp \<and> ep = [])
         then None
         else Some (if neg then - scaled else scaled,
                    (if neg then 1 else 0) + length ip
                    + (if hasFrac then 1 + length fp else 0)
                    + (if hasExp then 1 + length expSign + length ep else 0)))"

text \<open>The tokens of a JSON text, or \<open>None\<close> when some character starts no token.\<close>

fun tokens :: "string \<Rightarrow> token list option" where
  "tokens [] = Some []"
| "tokens (c # cs) =
     (if isJsonSpace c then tokens cs
      else if c = CHR ''{'' then map_option ((#) TLBrace) (tokens cs)
      else if c = CHR ''}'' then map_option ((#) TRBrace) (tokens cs)
      else if c = CHR ''['' then map_option ((#) TLBracket) (tokens cs)
      else if c = CHR '']'' then map_option ((#) TRBracket) (tokens cs)
      else if c = CHR '':'' then map_option ((#) TColon) (tokens cs)
      else if c = CHR '','' then map_option ((#) TComma) (tokens cs)
      else if c = CHR 0x22 then
        (case lexString cs of
           None \<Rightarrow> None
         | Some (str, n) \<Rightarrow> map_option ((#) (TScalar (JStr str))) (tokens (drop n cs)))
      else if c = CHR ''-'' \<or> isDigit c then
        (case lexNumber (c # cs) of
           None \<Rightarrow> None
         | Some (x, n) \<Rightarrow> map_option ((#) (TScalar (JNum x))) (tokens (drop (n - 1) cs)))
      else if prefix ''true'' (c # cs) then
        map_option ((#) (TScalar (JBool True))) (tokens (drop 3 cs))
      else if prefix ''false'' (c # cs) then
        map_option ((#) (TScalar (JBool False))) (tokens (drop 4 cs))
      else if prefix ''null'' (c # cs) then
        map_option ((#) (TScalar JNull)) (tokens (drop 3 cs))
      else None)"

text \<open>
  The parser reads the tokens from left to right with a stack of the arrays and objects
  that are open: an open array with the elements read so far, an open object with the
  members read so far and the key whose value is awaited.
\<close>

datatype frame = OpenArray "json list" | OpenObject "(string \<times> json) list" "string option"

datatype expecting =
    AValue | AValueOrClose | AKey | AKeyOrClose | AColon | ACommaOrClose | Finished json

text \<open>A complete value goes to the innermost open array or object, or is the result.\<close>

fun complete :: "json \<Rightarrow> frame list \<Rightarrow> (frame list \<times> expecting) option" where
  "complete v [] = Some ([], Finished v)"
| "complete v (OpenArray xs # st) = Some (OpenArray (xs @ [v]) # st, ACommaOrClose)"
| "complete v (OpenObject kvs (Some k) # st) = Some (OpenObject (kvs @ [(k, v)]) None # st, ACommaOrClose)"
| "complete v (OpenObject kvs None # st) = None"

text \<open>A token where a value may start.\<close>

definition startValue :: "frame list \<Rightarrow> token \<Rightarrow> (frame list \<times> expecting) option" where
  "startValue st t =
     (case t of
        TScalar v \<Rightarrow> complete v st
      | TLBracket \<Rightarrow> Some (OpenArray [] # st, AValueOrClose)
      | TLBrace \<Rightarrow> Some (OpenObject [] None # st, AKeyOrClose)
      | _ \<Rightarrow> None)"

text \<open>A token where a key must stand: a string, in an open object that awaits no value.\<close>

definition startMember :: "frame list \<Rightarrow> token \<Rightarrow> (frame list \<times> expecting) option" where
  "startMember st t =
     (case t of
        TScalar v \<Rightarrow>
          (case v of
             JStr k \<Rightarrow>
               (case st of
                  OpenObject kvs None # st' \<Rightarrow> Some (OpenObject kvs (Some k) # st', AColon)
                | _ \<Rightarrow> None)
           | _ \<Rightarrow> None)
      | _ \<Rightarrow> None)"

text \<open>The closing bracket or brace of the innermost open array or object.\<close>

definition closeFrame :: "frame list \<Rightarrow> token \<Rightarrow> (frame list \<times> expecting) option" where
  "closeFrame st t =
     (case st of
        [] \<Rightarrow> None
      | OpenArray xs # st' \<Rightarrow> (if t = TRBracket then complete (JArr xs) st' else None)
      | OpenObject kvs None # st' \<Rightarrow> (if t = TRBrace then complete (JObj kvs) st' else None)
      | OpenObject kvs (Some k) # st' \<Rightarrow> None)"

definition parseStep :: "frame list \<times> expecting \<Rightarrow> token \<Rightarrow> (frame list \<times> expecting) option" where
  "parseStep cfg t =
     (case snd cfg of
        AValue \<Rightarrow> startValue (fst cfg) t
      | AValueOrClose \<Rightarrow>
          (if t = TRBracket then closeFrame (fst cfg) t else startValue (fst cfg) t)
      | AKey \<Rightarrow> startMember (fst cfg) t
      | AKeyOrClose \<Rightarrow>
          (if t = TRBrace then closeFrame (fst cfg) t else startMember (fst cfg) t)
      | AColon \<Rightarrow> (if t = TColon then Some (fst cfg, AValue) else None)
      | ACommaOrClose \<Rightarrow>
          (if t = TComma then
             (case fst cfg of
                OpenArray xs # st' \<Rightarrow> Some (fst cfg, AValue)
              | OpenObject kvs None # st' \<Rightarrow> Some (fst cfg, AKey)
              | _ \<Rightarrow> None)
           else closeFrame (fst cfg) t)
      | Finished v \<Rightarrow> None)"

fun parseTokens :: "frame list \<times> expecting \<Rightarrow> token list \<Rightarrow> (frame list \<times> expecting) option" where
  "parseTokens cfg [] = Some cfg"
| "parseTokens cfg (t # ts) =
     (case parseStep cfg t of None \<Rightarrow> None | Some cfg' \<Rightarrow> parseTokens cfg' ts)"

text \<open>\<^verbatim>\<open>JSON.parse(s)\<close>; \<open>None\<close> is the \<^verbatim>\<open>SyntaxError\<close> it throws.\<close>

definition JSON_parse :: "string \<Rightarrow> json option" where
  "JSON_parse s =
     (case tokens s of
        None \<Rightarrow> None
      | Some ts \<Rightarrow>
          (case parseTokens ([], AValue) ts of
             Some ([], Finished v) \<Rightarrow> Some v
           | _ \<Rightarrow> None))"

section \<open>AI client: request, retry and response parsing (ai.js, AIManager)\<close>

text \<open>An error as the program inspects it: its \<^verbatim>\<open>name\<close> and its \<^verbatim>\<open>message\<close>.\<close>

datatype js_error = JsError (errorName: string) (errorMessage: string)

definition InvalidResponseFormat :: js_error where
  "InvalidResponseFormat = JsError ''Error'' ''Invalid response format from API''"

text \<open>
  The \<^verbatim>\<open>TypeError\<close> that the engine throws for a property read on \<^verbatim>\<open>undefined\<close> or
  \<^verbatim>\<open>null\<close>, or for a call of something that is no function. The wording of its message is
  the engine's; the one used here names what was read.
\<close>

definition TypeError :: "string \<Rightarrow> js_error" where
  "TypeError what = JsError ''TypeError'' what"

text \<open>Truthiness of a value that is defined.\<close>

fun truthy :: "json \<Rightarrow> bool" where
  "truthy JNull = False"
| "truthy (JBool b) = b"
| "truthy (JNum x) = (x \<noteq> 0)"
| "truthy (JStr s) = (s \<noteq> [])"
| "truthy (JArr xs) = True"
| "truthy (JObj kvs) = True"

text \<open>
  \<^verbatim>\<open>v.key\<close> for a value \<open>v\<close> that is neither \<^verbatim>\<open>null\<close> nor \<^verbatim>\<open>undefined\<close>, and a key among
  \<^verbatim>\<open>candidates\<close>, \<^verbatim>\<open>content\<close>, \<^verbatim>\<open>parts\<close>, \<^verbatim>\<open>text\<close>: only an object has such a property
  (of a repeated key, \<^verbatim>\<open>JSON.parse\<close> keeps the last value); \<open>None\<close> is \<^verbatim>\<open>undefined\<close>.
\<close>

fun getMember :: "string \<Rightarrow> json \<Rightarrow> json option" where
  "getMember key (JObj kvs) = map_of (rev kvs) key"
| "getMember key _ = None"

text \<open>
  \<^verbatim>\<open>v[0]\<close> for a value \<open>v\<close> that is neither \<^verbatim>\<open>null\<close> nor \<^verbatim>\<open>undefined\<close>: the first element
  of an array, the first character of a string, the member \<^verbatim>\<open>"0"\<close> of an object.
\<close>

fun getFirst :: "json \<Rightarrow> json option" where
  "getFirst (JArr xs) = (case xs of [] \<Rightarrow> None | x # _ \<Rightarrow> Some x)"
| "getFirst (JStr s) = (case s of [] \<Rightarrow> None | c # _ \<Rightarrow> Some (JStr [c]))"
| "getFirst (JObj kvs) = map_of (rev kvs) ''0''"
| "getFirst _ = None"

text \<open>
  \<^verbatim>\<open>(content.parts[0]?.text || '').trim()\<close> for a \<open>content\<close> that is truthy: the read of
  \<^verbatim>\<open>[0]\<close> throws when \<^verbatim>\<open>content.parts\<close> is \<^verbatim>\<open>undefined\<close> or \<^verbatim>\<open>null\<close>, and the call of
  \<^verbatim>\<open>trim\<close> throws when the text is truthy and not a string.
\<close>

definition firstPartText :: "json \<Rightarrow> js_error + string" where
  "firstPartText content =
     (case getMember ''parts'' content of
        None \<Rightarrow> Inl (TypeError ''content.parts[0]'')
      | Some parts \<Rightarrow>
          if parts = JNull then Inl (TypeError ''content.parts[0]'')
          else
            (case (case getFirst parts of
                     None \<Rightarrow> None
                   | Some part \<Rightarrow> if part = JNull then None else getMember ''text'' part) of
               None \<Rightarrow> Inr []
             | Some t \<Rightarrow>
                 if \<not> truthy t then Inr []
                 else (case t of JStr s \<Rightarrow> Inr (trim s) | _ \<Rightarrow> Inl (TypeError ''text.trim''))))"

text \<open>
  The text of a parsed response body (the statements after \<^verbatim>\<open>await response.json()\<close>):
  when \<^verbatim>\<open>data.candidates\<close>, \<^verbatim>\<open>data.candidates[0]\<close> and \<^verbatim>\<open>data.candidates[0].content\<close>
  are all truthy, the text of the first part; otherwise the error thrown by the
  \<^verbatim>\<open>else\<close> branch. The read of \<^verbatim>\<open>data.candidates\<close> throws when the body is \<^verbatim>\<open>null\<close>.
\<close>

definition responseText :: "json \<Rightarrow> js_error + string" where
  "responseText data =
     (if data = JNull then Inl (TypeError ''data.candidates'')
      else
        (case getMember ''candidates'' data of
           None \<Rightarrow> Inl InvalidResponseFormat
         | Some candidates \<Rightarrow>
             if \<not> truthy candidates then Inl InvalidResponseFormat
             else
               (case getFirst candidates of
                  None \<Rightarrow> Inl InvalidResponseFormat
                | Some candidate \<Rightarrow>
                    if \<not> truthy candidate then Inl InvalidResponseFormat
                    else
                      (case getMember ''content'' candidate of
                         None \<Rightarrow> Inl InvalidResponseFormat
                       | Some content \<Rightarrow>
                           if \<not> truthy content then Inl InvalidResponseFormat
                           else firstPartText content))))"

text \<open>
  How one \<^verbatim>\<open>fetch\<close> ends. \<open>FetchRejected\<close>: the promise rejects, with \<^verbatim>\<open>AbortError\<close> when the
  timeout fires or with the error of a network failure. \<open>HttpError\<close>: a response whose \<^verbatim>\<open>ok\<close>
  is false, with its status and \<^verbatim>\<open>JSON.stringify\<close> of its body (\<^verbatim>\<open>{}\<close> for a body that is
  no JSON). \<open>HttpOk\<close>: a response whose \<^verbatim>\<open>ok\<close> is true, with what \<^verbatim>\<open>response.json()\<close> gives:
  the error it rejects with, or the parsed body.
\<close>

datatype fetch_outcome =
    FetchRejected js_error
  | HttpError nat string
  | HttpOk "js_error + json"

text \<open>The \<^verbatim>\<open>try\<close> block of \<^verbatim>\<open>callGeminiAPI\<close> after the fetch: the text, or the error thrown.\<close>

fun attempt :: "fetch_outcome \<Rightarrow> js_error + string" where
  "attempt (FetchRejected e) = Inl e"
| "attempt (HttpError status errorData) =
     Inl (JsError ''Error'' (''API Error '' @ decimal status @ '': '' @ errorData))"
| "attempt (HttpOk (Inl e)) = Inl e"
| "attempt (HttpOk (Inr data)) = responseText data"

text \<open>The end of the \<^verbatim>\<open>catch\<close> block: the error that reaches the caller.\<close>

definition handleSpecificErrors :: "js_error \<Rightarrow> js_error" where
  "handleSpecificErrors e =
     (if errorName e = ''AbortError'' then
        JsError ''Error'' ''Request timeout. Please check your internet connection.''
      else if includes_str (errorMessage e) ''API key'' then
        JsError ''Error'' ''Invalid API key. Please check your config.js file.''
      else if includes_str (errorMessage e) ''429'' then
        JsError ''Error'' ''Rate limit exceeded. Please wait a moment before trying again.''
      else e)"

record AIManager =
  apiKey :: "string option"
  model :: string
  baseURL :: string
  maxRetries :: nat
  requestTimeout :: nat
  isInitialized :: bool

text \<open>A message of the request: its role and its parts.\<close>

datatype part = TextPart string | InlineData string "string option"

record message =
  role :: string
  parts :: "part list"

text \<open>
  What the network does with a request: the outcome of the fetch made with the given
  messages on the attempt with the given retry count.
\<close>

type_synonym network = "message list \<Rightarrow> nat \<Rightarrow> fetch_outcome"

text \<open>What a call of \<^verbatim>\<open>callGeminiAPI\<close> does, in order: a fetch, or a wait of so many ms.\<close>

datatype api_event = Fetch nat | Delay nat

text \<open>
  \<^verbatim>\<open>callGeminiAPI(messages, retryCount)\<close>: the text returned or the error thrown, and the
  fetches and waits made.
\<close>

function callGeminiAPI ::
  "AIManager \<Rightarrow> network \<Rightarrow> message list \<Rightarrow> nat \<Rightarrow> (js_error + string) \<times> api_event list" where
  "callGeminiAPI mgr net messages retryCount =
     (case attempt (net messages retryCount) of
        Inr txt \<Rightarrow> (Inr txt, [Fetch retryCount])
      | Inl error \<Rightarrow>
          if retryCount < maxRetries mgr then
            (case callGeminiAPI mgr net messages (retryCount + 1) of
               (result, events) \<Rightarrow>
                 (result, Fetch retryCount # Delay (1000 * (retryCount + 1)) # events))
          else (Inl (handleSpecificErrors error), [Fetch retryCount]))"
  by pat_completeness auto
termination
  by (relation "measure (\<lambda>(mgr, net, messages, retryCount). Suc (maxRetries mgr) - retryCount)") auto

declare callGeminiAPI.simps [simp del]

text \<open>The waits and the fetches among the events of a call, in order.\<close>

definition delays :: "api_event list \<Rightarrow> nat list" where
  "delays events = concat (map (\<lambda>e. case e of Delay ms \<Rightarrow> [ms] | Fetch k \<Rightarrow> []) events)"

definition fetches :: "api_event list \<Rightarrow> nat list" where
  "fetches events = concat (map (\<lambda>e. case e of Fetch k \<Rightarrow> [k] | Delay ms \<Rightarrow> []) events)"

text \<open>
  The word of the specification, "exponentially increasing": every delay is the one
  before it multiplied by one and the same factor, and that factor is greater than one.
  \<open>constantRatio a b ds\<close> says that consecutive elements of \<open>ds\<close> are in the ratio of \<open>a\<close>
  to \<open>b\<close>.
\<close>

fun constantRatio :: "nat \<Rightarrow> nat \<Rightarrow> nat list \<Rightarrow> bool" where
  "constantRatio a b (x # y # ds) = (y * a = x * b \<and> constantRatio a b (y # ds))"
| "constantRatio a b ds = True"

definition exponentiallyIncreasing :: "nat list \<Rightarrow> bool" where
  "exponentiallyIncreasing ds =
     (case ds of
        a # b # rest \<Rightarrow> 0 < a \<and> a < b \<and> constantRatio a b (b # rest)
      | _ \<Rightarrow> True)"

text \<open>
  The two things \<^verbatim>\<open>prepareMessages\<close> reads from the application state:
  \<^verbatim>\<open>AppState.getSystemPrompt()\<close> and \<^verbatim>\<open>AppState.aiContext.messages\<close>.
\<close>

record ai_context =
  systemPrompt :: string
  history :: "message list"

definition prepareMessages :: "ai_context \<Rightarrow> string \<Rightarrow> string option \<Rightarrow> message list" where
  "prepareMessages ctx userMessage imageData =
     [\<lparr>role = ''user'', parts = [TextPart (systemPrompt ctx)]\<rparr>,
      \<lparr>role = ''model'',
       parts = [TextPart ''Understood. I am ChefMate, your kitchen assistant. I will guide you step by step in friendly Hinglish.'']\<rparr>]
     @ history ctx
     @ [\<lparr>role = ''user'',
         parts = TextPart userMessage #
           (case imageData of
              None \<Rightarrow> []
            | Some img \<Rightarrow>
                if img = [] then []
                else [InlineData ''image/jpeg''
                        (case split (CHR '','') img of _ # d # _ \<Rightarrow> Some d | _ \<Rightarrow> None),
                      TextPart ''Please analyze this image of the cooking. Look for obvious issues like burning, undercooking, wrong consistency, or safety concerns. Give a brief, helpful suggestion if something needs correction.''])\<rparr>]"

definition generateResponse ::
  "AIManager \<Rightarrow> ai_context \<Rightarrow> network \<Rightarrow> string \<Rightarrow> string option
     \<Rightarrow> (js_error + string) \<times> api_event list" where
  "generateResponse mgr ctx net userMessage imageData =
     (if \<not> isInitialized mgr \<or> apiKey mgr = None \<or> apiKey mgr = Some [] then
        (Inl (JsError ''Error'' ''AI not initialized. Please check API key.''), [])
      else callGeminiAPI mgr net (prepareMessages ctx userMessage imageData) 0)"

section \<open>AI client: recipe extraction (ai.js, AIManager)\<close>

record recipe =
  name :: string
  ingredients :: "string list"
  steps :: "string list"
  estimatedTime :: string

text \<open>The object that the record stands for, as \<^verbatim>\<open>JSON.parse\<close> would build it.\<close>

definition recipeObject :: "recipe \<Rightarrow> json" where
  "recipeObject r =
     JObj [(''name'', JStr (name r)),
           (''ingredients'', JArr (map JStr (ingredients r))),
           (''steps'', JArr (map JStr (steps r))),
           (''estimatedTime'', JStr (estimatedTime r))]"

definition getDefaultRecipe :: recipe where
  "getDefaultRecipe =
     \<lparr>name = ''Vegetable Pulao'',
      ingredients =
        [''1 cup basmati rice'',
         ''2 cups mixed vegetables (carrots, peas, beans)'',
         ''1 onion, sliced'',
         ''2 tomatoes, chopped'',
         ''Spices: turmeric, cumin, garam masala'',
         ''2 tbsp oil or ghee'',
         ''Salt to taste'',
         ''Water as needed''],
      steps =
        [''Wash rice and soak for 15 minutes'',
         ''Heat oil in a pressure cooker, add cumin seeds'',
         ''Add onions and saut'' @ [CHR 0xE2, CHR 0x88, CHR 0x9A, CHR 0xC2, CHR 0xA9] @ '' until golden brown'',
         ''Add tomatoes and cook until soft'',
         ''Add vegetables and spices, cook for 2 minutes'',
         ''Add rice and water, pressure cook for 2 whistles'',
         ''Let pressure release naturally, then serve hot''],
      estimatedTime = ''30''\<rparr>"

text \<open>One line of the text in \<^verbatim>\<open>parseRecipeFallback\<close>: the recipe and the current section.\<close>

definition fallbackLine :: "recipe \<times> string \<Rightarrow> string \<Rightarrow> recipe \<times> string" where
  "fallbackLine acc line =
     (let r = fst acc; currentSection = snd acc; lowerLine = toLowerCase line
      in if includes_str lowerLine ''ingredient'' then (r, ''ingredients'')
         else if includes_str lowerLine ''step'' \<or> includes_str lowerLine ''method''
                 \<or> includes_str lowerLine ''instruction'' then (r, ''steps'')
         else if includes_str lowerLine ''time'' then
           (case matchDigits line of
              Some timeMatch \<Rightarrow> (r\<lparr>estimatedTime := timeMatch\<rparr>, currentSection)
            | None \<Rightarrow> (r, currentSection))
         else if currentSection = ''ingredients'' \<and> trim line \<noteq> [] then
           (r\<lparr>ingredients := ingredients r @ [trim line]\<rparr>, currentSection)
         else if currentSection = ''steps'' \<and> trim line \<noteq> [] then
           (r\<lparr>steps := steps r @ [trim line]\<rparr>, currentSection)
         else if name r = [] \<or> name r = ''Custom Dish'' then
           (r\<lparr>name := trim line\<rparr>, currentSection)
         else (r, currentSection))"

definition parseRecipeFallback :: "string \<Rightarrow> recipe" where
  "parseRecipeFallback txt =
     fst (foldl fallbackLine
            (\<lparr>name = ''Custom Dish'', ingredients = [], steps = [], estimatedTime = ''30''\<rparr>, [])
            (filter (\<lambda>line. trim line \<noteq> []) (split (CHR 0x0A) txt)))"

text \<open>The prompt that \<^verbatim>\<open>extractRecipe\<close> builds around the user's message.\<close>

definition extractionPrompt :: "string \<Rightarrow> string" where
  "extractionPrompt userMessage =
     ''The user wants to cook something. Extract recipe details from this message: ''
     @ [CHR 0x22] @ userMessage @ [CHR 0x22, CHR 0x0A, CHR 0x0A]
     @ ''        Return ONLY a valid JSON object with this exact structure:'' @ [CHR 0x0A]
     @ ''        {'' @ [CHR 0x0A]
     @ ''            '' @ [CHR 0x22] @ ''name'' @ [CHR 0x22] @ '': '' @ [CHR 0x22] @ ''Dish name'' @ [CHR 0x22] @ '','' @ [CHR 0x0A]
     @ ''            '' @ [CHR 0x22] @ ''ingredients'' @ [CHR 0x22] @ '': ['' @ [CHR 0x22] @ ''ingredient 1 with quantity'' @ [CHR 0x22]
        @ '', '' @ [CHR 0x22] @ ''ingredient 2 with quantity'' @ [CHR 0x22] @ '', ...],'' @ [CHR 0x0A]
     @ ''            '' @ [CHR 0x22] @ ''steps'' @ [CHR 0x22] @ '': ['' @ [CHR 0x22] @ ''Step 1 instruction'' @ [CHR 0x22]
        @ '', '' @ [CHR 0x22] @ ''Step 2 instruction'' @ [CHR 0x22] @ '', ...],'' @ [CHR 0x0A]
     @ ''            '' @ [CHR 0x22] @ ''estimatedTime'' @ [CHR 0x22] @ '': '' @ [CHR 0x22] @ ''time in minutes'' @ [CHR 0x22] @ [CHR 0x0A]
     @ ''        }'' @ [CHR 0x0A, CHR 0x0A]
     @ ''        If information is missing, make reasonable assumptions for a home cook.'' @ [CHR 0x0A]
     @ ''        Keep steps clear and sequential.''"

text \<open>The stages of \<^verbatim>\<open>extractRecipe\<close> that a call goes through.\<close>

datatype stage = StructuredParse | HeuristicParse | DefaultRecipe

text \<open>
  \<^verbatim>\<open>extractRecipe(userMessage)\<close>: the object returned and the stages gone through.
  \<open>StructuredParse\<close> is the call of \<^verbatim>\<open>JSON.parse\<close> on the matched text, \<open>HeuristicParse\<close>
  the call of \<^verbatim>\<open>parseRecipeFallback\<close>, \<open>DefaultRecipe\<close> the \<^verbatim>\<open>catch\<close> block.
\<close>

definition extractRecipe ::
  "AIManager \<Rightarrow> ai_context \<Rightarrow> network \<Rightarrow> string \<Rightarrow> json \<times> stage list" where
  "extractRecipe mgr ctx net userMessage =
     (case fst (generateResponse mgr ctx net (extractionPrompt userMessage) None) of
        Inl error \<Rightarrow> (recipeObject getDefaultRecipe, [DefaultRecipe])
      | Inr response \<Rightarrow>
          (case jsonMatch response of
             Some matched \<Rightarrow>
               (case JSON_parse matched of
                  Some recipeData \<Rightarrow> (recipeData, [StructuredParse])
                | None \<Rightarrow> (recipeObject getDefaultRecipe, [StructuredParse, DefaultRecipe]))
           | None \<Rightarrow> (recipeObject (parseRecipeFallback response), [HeuristicParse])))"

section \<open>Application state (state.js, AppState)\<close>

text \<open>
  The file state.js is not among the sources. The record has the fields of \<^verbatim>\<open>AppState\<close>
  that camera.js reads and writes: the session flags, the step index
  (\<^verbatim>\<open>currentStep\<close>), the steps of the recipe (\<^verbatim>\<open>recipe.steps\<close>), the camera preference
  and the conversation as pairs of role and text. The preference \<^verbatim>\<open>aiSpeechEnabled\<close> is
  kept with the speech facade.
\<close>

record AppState =
  isCooking :: bool
  isPaused :: bool
  waitingForConfirmation :: bool
  currentStep :: int
  recipeSteps :: "string list"
  cameraEnabled :: bool
  conversation :: "(string \<times> string) list"

text \<open>
  Modelled from the spec: \<^verbatim>\<open>AppState.totalSteps\<close> of state.js, which is not among the
  sources; the specification's step count, the number of steps of the recipe.
\<close>

definition totalSteps :: "AppState \<Rightarrow> int" where
  "totalSteps a = int (length (recipeSteps a))"

text \<open>
  Modelled from the spec: \<^verbatim>\<open>AppState.nextStep\<close> of state.js, which is not among the
  sources. The specification has the index clamped, never beyond the last step; the
  value returned tells the orchestrator whether the index moved.
\<close>

definition AppState_nextStep :: "AppState \<Rightarrow> bool \<times> AppState" where
  "AppState_nextStep a =
     (if currentStep a + 1 < totalSteps a then (True, a\<lparr>currentStep := currentStep a + 1\<rparr>)
      else (False, a))"

text \<open>
  Modelled from the spec: \<^verbatim>\<open>AppState.prevStep\<close> of state.js, which is not among the
  sources. The specification has the index clamped, never negative; the value returned
  tells the orchestrator whether the index moved.
\<close>

definition AppState_prevStep :: "AppState \<Rightarrow> bool \<times> AppState" where
  "AppState_prevStep a =
     (if 0 < currentStep a then (True, a\<lparr>currentStep := currentStep a - 1\<rparr>)
      else (False, a))"

text \<open>
  Modelled from the spec: \<^verbatim>\<open>AppState.completeCurrentStep\<close> of state.js, which is not
  among the sources. The specification has it advance the index by one, never past the
  last step.
\<close>

definition completeCurrentStep :: "AppState \<Rightarrow> AppState" where
  "completeCurrentStep a = snd (AppState_nextStep a)"

text \<open>
  Modelled from the spec: \<^verbatim>\<open>AppState.getCurrentStepText\<close> of state.js, which is not among
  the sources: the text of the step at the index, and the empty string when the recipe
  has no step there.
\<close>

definition getCurrentStepText :: "AppState \<Rightarrow> string" where
  "getCurrentStepText a =
     (if 0 \<le> currentStep a \<and> currentStep a < totalSteps a
      then recipeSteps a ! nat (currentStep a) else [])"

text \<open>
  Modelled from the spec: \<^verbatim>\<open>AppState.addToConversation\<close> of state.js, which is not among
  the sources. The specification has the conversation as an append-only ordered sequence.
\<close>

definition addToConversation :: "string \<Rightarrow> string \<Rightarrow> AppState \<Rightarrow> AppState" where
  "addToConversation who said a = a\<lparr>conversation := conversation a @ [(who, said)]\<rparr>"

section \<open>Session orchestrator (camera.js, LiveRecipeAI)\<close>

text \<open>
  What the orchestrator works on: the application state, the two facades
  (\<^verbatim>\<open>window.speechManager\<close> and \<^verbatim>\<open>window.cameraManager\<close>, \<open>None\<close> when the module is not
  loaded), the requests made to the AI client (message and image) and the alerts shown.
\<close>

record Session =
  appState :: AppState
  speechManager :: "SpeechManager option"
  cameraManager :: "CameraManager option"
  aiRequests :: "(string \<times> string option) list"
  alerts :: "string list"

text \<open>
  What the orchestrator takes from outside the sources: the operations of state.js that
  the specification does not describe, the answers of the browser, and the AI client
  behind \<^verbatim>\<open>window.generateAIResponse\<close> (the text it resolves with, or the error it
  rejects with). \<open>ingredientsSpoken\<close> is the list of names and quantities that
  \<^verbatim>\<open>showIngredients\<close> joins, \<open>None\<close> when the recipe has no ingredient; \<open>cameraFailure\<close> is
  the message of \<^verbatim>\<open>handleCameraError\<close> when the browser refuses the camera.
\<close>

record surroundings =
  pauseCookingState :: "AppState \<Rightarrow> AppState"
  resetCookingState :: "AppState \<Rightarrow> AppState"
  confirmReset :: bool
  ingredientsSpoken :: "string option"
  cameraFailure :: "string option"
  shouldAnalyzeCamera :: "AppState \<Rightarrow> bool"
  firstCapture :: capture_env
  secondCapture :: capture_env
  generateAIResponse :: "string \<Rightarrow> string option \<Rightarrow> js_error + string"

text \<open>
  The length of the text that \<^verbatim>\<open>.*?\<close> and the closing delimiter match after an opening
  delimiter: up to the first closing delimiter, if no line break comes before it.
\<close>

fun closingAt :: "char \<Rightarrow> string \<Rightarrow> nat option" where
  "closingAt cls [] = None"
| "closingAt cls (c # cs) =
     (if c = cls then Some 1
      else if c = CHR 0x0A \<or> c = CHR 0x0D then None
      else map_option Suc (closingAt cls cs))"

text \<open>\<^verbatim>\<open>s.replace(/\[.*?\]/g, '')\<close>, for any pair of delimiters.\<close>

fun removeDelimited :: "char \<Rightarrow> char \<Rightarrow> string \<Rightarrow> string" where
  "removeDelimited opn cls [] = []"
| "removeDelimited opn cls (c # cs) =
     (if c = opn then
        (case closingAt cls cs of
           Some n \<Rightarrow> removeDelimited opn cls (drop n cs)
         | None \<Rightarrow> c # removeDelimited opn cls cs)
      else c # removeDelimited opn cls cs)"

text \<open>The clean-up of \<^verbatim>\<open>speakAIResponse\<close>: brackets, parentheses and asterisks go.\<close>

definition cleanForSpeech :: "string \<Rightarrow> string" where
  "cleanForSpeech s =
     trim (filter (\<lambda>c. c \<noteq> CHR ''*'')
             (removeDelimited (CHR ''('') (CHR '')'')
                (removeDelimited (CHR ''['') (CHR '']'') s)))"

definition speakAIResponse :: "string \<Rightarrow> Session \<Rightarrow> Session" where
  "speakAIResponse said s =
     (case speechManager s of
        None \<Rightarrow> s
      | Some sm \<Rightarrow>
          if \<not> aiSpeechEnabled sm then s
          else if cleanForSpeech said = [] then s
          else s\<lparr>speechManager := Some (queueSpeech (cleanForSpeech said) sm)\<rparr>)"

definition nextStep :: "Session \<Rightarrow> Session" where
  "nextStep s =
     (case AppState_nextStep (appState s) of
        (moved, a) \<Rightarrow>
          if moved then speakAIResponse (''Agla step: '' @ getCurrentStepText a) (s\<lparr>appState := a\<rparr>)
          else s\<lparr>appState := a\<rparr>)"

definition prevStep :: "Session \<Rightarrow> Session" where
  "prevStep s =
     (case AppState_prevStep (appState s) of
        (moved, a) \<Rightarrow>
          if moved then speakAIResponse (''Pichla step: '' @ getCurrentStepText a) (s\<lparr>appState := a\<rparr>)
          else s\<lparr>appState := a\<rparr>)"

definition showError :: "string \<Rightarrow> Session \<Rightarrow> Session" where
  "showError message s =
     s\<lparr>appState := addToConversation ''system'' (''Error: '' @ message) (appState s),
       alerts := alerts s @ [''ChefMate Error: '' @ message]\<rparr>"

definition togglePause :: "surroundings \<Rightarrow> Session \<Rightarrow> Session" where
  "togglePause env s = s\<lparr>appState := pauseCookingState env (appState s)\<rparr>"

definition stopCamera :: "CameraManager \<Rightarrow> CameraManager" where
  "stopCamera cam = cam\<lparr>isActive := False\<rparr>"

definition resetCooking :: "surroundings \<Rightarrow> Session \<Rightarrow> Session" where
  "resetCooking env s =
     (if confirmReset env then
        s\<lparr>appState := resetCookingState env (appState s),
          cameraManager := map_option stopCamera (cameraManager s),
          speechManager := map_option stopSpeaking (speechManager s)\<rparr>
      else s)"

definition showIngredients :: "surroundings \<Rightarrow> Session \<Rightarrow> Session" where
  "showIngredients env s =
     (case ingredientsSpoken env of
        None \<Rightarrow> speakAIResponse ''Abhi tak koi ingredients nahi hain. Pehle dish bataiye.'' s
      | Some ingredientsText \<Rightarrow> speakAIResponse (''Ingredients hain: '' @ ingredientsText) s)"

text \<open>
  \<^verbatim>\<open>startCamera\<close> as the orchestrator sees it: the error message of a refused camera, or
  \<open>None\<close> when the camera is active afterwards.
\<close>

definition startCamera :: "surroundings \<Rightarrow> CameraManager \<Rightarrow> string option \<times> CameraManager" where
  "startCamera env cam =
     (if isActive cam then (None, cam)
      else
        (case cameraFailure env of
           None \<Rightarrow> (None, cam\<lparr>isActive := True\<rparr>)
         | Some refusal \<Rightarrow> (Some refusal, cam)))"

text \<open>
  \<^verbatim>\<open>toggleCamera(forceState)\<close> with the state forced, as the two camera commands call it.
  A refused camera leaves a message of the camera facade in the conversation.
\<close>

definition toggleCamera :: "surroundings \<Rightarrow> bool \<Rightarrow> Session \<Rightarrow> Session" where
  "toggleCamera env forceState s =
     (case cameraManager s of
        None \<Rightarrow> showError ''Camera module not available'' s
      | Some cam \<Rightarrow>
          if forceState then
            (case startCamera env cam of
               (None, cam') \<Rightarrow>
                 s\<lparr>cameraManager := Some cam',
                   appState := addToConversation ''ai''
                                 ''Camera on. Ab main dekh sakta hun aapka cooking.''
                                 ((appState s)\<lparr>cameraEnabled := True\<rparr>)\<rparr>
             | (Some refusal, cam') \<Rightarrow>
                 s\<lparr>cameraManager := Some cam',
                   appState := addToConversation ''system'' (''Camera: '' @ refusal)
                                 (appState s)\<rparr>)
          else
            s\<lparr>cameraManager := Some (stopCamera cam),
              appState := addToConversation ''ai'' ''Camera off.''
                            ((appState s)\<lparr>cameraEnabled := False\<rparr>)\<rparr>)"

text \<open>The table of \<^verbatim>\<open>handleSpecialCommands\<close>, in the order of its keys.\<close>

datatype command =
  Ready | Haan | Nahi | Next | Previous | Pause | Stop | Ingredients | CameraOn | CameraOff

definition commands :: "(string \<times> command) list" where
  "commands =
     [(''ready'', Ready), (''haan'', Haan), (''nahi'', Nahi), (''next'', Next),
      (''previous'', Previous), (''pause'', Pause), (''stop'', Stop),
      (''ingredients'', Ingredients), (''camera on'', CameraOn), (''camera off'', CameraOff)]"

fun handler :: "surroundings \<Rightarrow> command \<Rightarrow> Session \<Rightarrow> Session" where
  "handler env Ready s =
     speakAIResponse
       (''Accha! Chaliye shuru karte hain. ''
          @ getCurrentStepText ((appState s)\<lparr>waitingForConfirmation := False\<rparr>))
       (s\<lparr>appState := (appState s)\<lparr>waitingForConfirmation := False\<rparr>\<rparr>)"
| "handler env Haan s =
     speakAIResponse
       (''Theek hai. '' @ getCurrentStepText ((appState s)\<lparr>waitingForConfirmation := False\<rparr>))
       (s\<lparr>appState := (appState s)\<lparr>waitingForConfirmation := False\<rparr>\<rparr>)"
| "handler env Nahi s = speakAIResponse ''Kya problem hai? Batayein main help karun.'' s"
| "handler env Next s = nextStep s"
| "handler env Previous s = prevStep s"
| "handler env Pause s = togglePause env s"
| "handler env Stop s = resetCooking env s"
| "handler env Ingredients s = showIngredients env s"
| "handler env CameraOn s = toggleCamera env True s"
| "handler env CameraOff s = toggleCamera env False s"

text \<open>
  \<^verbatim>\<open>handleSpecialCommands(message)\<close>: the handler of the first key of the table that the
  message includes is run; the value returned tells whether there was one.
\<close>

definition handleSpecialCommands :: "surroundings \<Rightarrow> string \<Rightarrow> Session \<Rightarrow> bool \<times> Session" where
  "handleSpecialCommands env message s =
     (case find (\<lambda>entry. includes_str message (fst entry)) commands of
        Some entry \<Rightarrow> (True, handler env (snd entry) s)
      | None \<Rightarrow> (False, s))"

definition completeKeywords :: "string list" where
  "completeKeywords = [''done'', ''complete'', ''finished'', ''hogaya'', ''ho gaya'', ''taiyar'']"

definition shouldMarkStepComplete :: "string \<Rightarrow> string \<Rightarrow> AppState \<Rightarrow> bool" where
  "shouldMarkStepComplete aiResponse userMessage a =
     ((list_ex (includes_str userMessage) completeKeywords
        \<or> list_ex (includes_str (toLowerCase aiResponse)) completeKeywords)
      \<and> waitingForConfirmation a)"

text \<open>
  A call of \<^verbatim>\<open>window.cameraManager.captureFrame\<close> from the orchestrator: an error of the
  camera facade is added to the conversation.
\<close>

definition capture :: "capture_env \<Rightarrow> Session \<Rightarrow> string option \<times> Session" where
  "capture cenv s =
     (case cameraManager s of
        None \<Rightarrow> (None, s)
      | Some cam \<Rightarrow>
          (case captureFrame cam cenv of
             (imageData, cam', signals) \<Rightarrow>
               (imageData,
                s\<lparr>cameraManager := Some cam',
                  appState :=
                    foldl (\<lambda>a signal.
                             case signal of
                               ShowError m \<Rightarrow> addToConversation ''system'' (''Camera: '' @ m) a
                             | ShowHint m \<Rightarrow> a)
                          (appState s) signals\<rparr>)))"

text \<open>
  \<^verbatim>\<open>processUserMessage(message)\<close>. A message of fewer than two characters is dropped; a
  message with a command is handled locally; any other message goes to the AI client,
  with a frame when one was asked for or is due, and the answer is added to the
  conversation and spoken.
\<close>

definition processUserMessage :: "surroundings \<Rightarrow> string \<Rightarrow> Session \<Rightarrow> Session" where
  "processUserMessage env message s =
     (if length message < 2 then s
      else
        (let lowerMessage = toLowerCase message
         in case handleSpecialCommands env lowerMessage s of
              (True, handled) \<Rightarrow> handled
            | (False, _) \<Rightarrow>
                (let asked =
                       (if (includes_str lowerMessage ''dekho'' \<or> includes_str lowerMessage ''look''
                            \<or> includes_str lowerMessage ''see'' \<or> includes_str lowerMessage ''check'')
                           \<and> cameraManager s \<noteq> None \<and> cameraEnabled (appState s)
                        then capture (firstCapture env) s else (None, s));
                     due =
                       (if (fst asked = None \<or> fst asked = Some [])
                           \<and> shouldAnalyzeCamera env (appState (snd asked))
                           \<and> cameraManager (snd asked) \<noteq> None
                        then capture (secondCapture env) (snd asked) else asked);
                     imageData = fst due;
                     s1 = (snd due)\<lparr>aiRequests := aiRequests (snd due) @ [(message, imageData)]\<rparr>
                 in case generateAIResponse env message imageData of
                      Inr aiResponse \<Rightarrow>
                        (let s2 = speakAIResponse aiResponse
                                    (s1\<lparr>appState := addToConversation ''ai'' aiResponse (appState s1)\<rparr>)
                         in if shouldMarkStepComplete aiResponse lowerMessage (appState s2)
                            then s2\<lparr>appState := completeCurrentStep (appState s2)\<rparr>
                            else s2)
                    | Inl error \<Rightarrow>
                        showError (''AI Error: '' @ errorMessage error)
                          (speakAIResponse ''Mujhe samajh nahi aaya. Could you please repeat?''
                             (s1\<lparr>appState :=
                                   addToConversation ''ai''
                                     ''Mujhe samajh nahi aaya. Could you please repeat?''
                                     (appState s1)\<rparr>)))))"

text \<open>A run of messages, each processed after the one before it.\<close>

definition processAll :: "surroundings \<Rightarrow> string list \<Rightarrow> Session \<Rightarrow> Session" where
  "processAll env messages s = foldl (\<lambda>acc message. processUserMessage env message acc) s messages"

text \<open>
  The invariant of the specification on the step index: while cooking, it is at least
  zero and less than the step count.
\<close>

definition stepInRange :: "AppState \<Rightarrow> bool" where
  "stepInRange a = (0 \<le> currentStep a \<and> currentStep a < totalSteps a)"

section \<open>Example values\<close>

text \<open>
  A manager as the constructor and \<^verbatim>\<open>init\<close> leave it when a key is configured, a
  context, and some networks: one that answers every request with status 500, and one
  that answers every request with status 200 and a given body.
\<close>

definition chef :: AIManager where
  "chef = \<lparr>apiKey = Some ''key'', model = ''gemini-1.5-pro'',
           baseURL = ''https://generativelanguage.googleapis.com/v1beta/models/'',
           maxRetries = 3, requestTimeout = 30000, isInitialized = True\<rparr>"

definition kitchen :: ai_context where
  "kitchen = \<lparr>systemPrompt = ''You are ChefMate.'', history = []\<rparr>"

definition serverDown :: network where
  "serverDown messages retryCount = HttpError 500 ''{}''"

definition answers :: "json \<Rightarrow> network" where
  "answers body messages retryCount = HttpOk (Inr body)"

text \<open>A network that answers with status 503 before the given attempt and with a body from it on.\<close>

definition answersAfter :: "nat \<Rightarrow> json \<Rightarrow> network" where
  "answersAfter n body messages retryCount =
     (if retryCount < n then HttpError 503 ''{}'' else HttpOk (Inr body))"

text \<open>The body of a response whose first candidate has one part with the given text.\<close>

definition textBody :: "string \<Rightarrow> json" where
  "textBody txt =
     JObj [(''candidates'',
            JArr [JObj [(''content'',
                         JObj [(''parts'', JArr [JObj [(''text'', JStr txt)]]),
                               (''role'', JStr ''model'')])]])]"

text \<open>A body whose first candidate has a content without parts, and one with no part.\<close>

definition bodyWithoutParts :: json where
  "bodyWithoutParts =
     JObj [(''candidates'',
            JArr [JObj [(''content'', JObj [(''role'', JStr ''model'')]),
                        (''finishReason'', JStr ''SAFETY'')]])]"

definition bodyWithNoPart :: json where
  "bodyWithNoPart =
     JObj [(''candidates'',
            JArr [JObj [(''content'', JObj [(''parts'', JArr []), (''role'', JStr ''model'')])]])]"

text \<open>A body without candidates, as the service sends it when it blocks the prompt.\<close>

definition blockedBody :: json where
  "blockedBody = JObj [(''promptFeedback'', JObj [(''blockReason'', JStr ''SAFETY'')])]"

text \<open>
  A text with a no-break space (U+00A0) and a space before it, and a space, a line feed
  and a byte order mark (U+FEFF) after it.
\<close>

definition saltNote :: string where
  "saltNote = [CHR 0xC2, CHR 0xA0] @ '' Add the salt. '' @ [CHR 0x0A, CHR 0xEF, CHR 0xBB, CHR 0xBF]"

text \<open>An answer of the model in plain lines, with braces around a quantity.\<close>

definition riceNote :: string where
  "riceNote = ''Ingredients:'' @ [CHR 0x0A] @ ''{1 cup} rice'' @ [CHR 0x0A]
              @ ''Steps:'' @ [CHR 0x0A] @ ''Boil the rice''"

text \<open>A text between double quotes, for the JSON texts below.\<close>

definition quoted :: "string \<Rightarrow> string" where
  "quoted s = [CHR 0x22] @ s @ [CHR 0x22]"

text \<open>An answer of the model with a JSON object in it, and one in plain lines.\<close>

definition khichdiAnswer :: string where
  "khichdiAnswer =
     ''Here is the recipe: {'' @ quoted ''name'' @ '': '' @ quoted ''Khichdi'' @ '', ''
     @ quoted ''ingredients'' @ '': ['' @ quoted ''1 cup rice'' @ '', '' @ quoted ''1 cup dal'' @ ''], ''
     @ quoted ''steps'' @ '': ['' @ quoted ''Boil together'' @ ''], ''
     @ quoted ''estimatedTime'' @ '': '' @ quoted ''20'' @ ''}''"

definition jeeraRiceAnswer :: string where
  "jeeraRiceAnswer =
     ''Jeera Rice'' @ [CHR 0x0A] @ ''Ingredients:'' @ [CHR 0x0A] @ ''1 cup rice'' @ [CHR 0x0A]
     @ ''Method:'' @ [CHR 0x0A] @ ''Boil the rice'' @ [CHR 0x0A] @ ''Time: 20 minutes''"

text \<open>
  Surroundings in which nothing outside the sources acts, and a session on the default
  recipe at its first step, waiting for the confirmation of the ingredients, with the
  speech facade idle and the camera off.
\<close>

definition quietSurroundings :: surroundings where
  "quietSurroundings =
     \<lparr>pauseCookingState = (\<lambda>a. a), resetCookingState = (\<lambda>a. a), confirmReset = False,
      ingredientsSpoken = None, cameraFailure = None, shouldAnalyzeCamera = (\<lambda>a. False),
      firstCapture = \<lparr>now = 0, videoWidth = 0, videoHeight = 0, toDataURL = []\<rparr>,
      secondCapture = \<lparr>now = 0, videoWidth = 0, videoHeight = 0, toDataURL = []\<rparr>,
      generateAIResponse = (\<lambda>message imageData. Inr ''Theek hai.'')\<rparr>"

definition idleSpeech :: SpeechManager where
  "idleSpeech =
     \<lparr>synthesis = True, aiSpeechEnabled = True, isSpeaking = False, currentUtterance = None,
      utteranceQueue = [], synthesisCalls = [], callbacksRun = [], speechStatus = ''Ready''\<rparr>"

definition pulaoSession :: Session where
  "pulaoSession =
     \<lparr>appState =
        \<lparr>isCooking = True, isPaused = False, waitingForConfirmation = True, currentStep = 0,
         recipeSteps = steps getDefaultRecipe, cameraEnabled = False, conversation = []\<rparr>,
      speechManager = Some idleSpeech,
      cameraManager = None,
      aiRequests = [],
      alerts = []\<rparr>"

section \<open>Strings: properties\<close>

lemma find_Some_member:
  assumes "find P xs = Some x"
  shows "x \<in> set xs \<and> P x"
  using assms by (induction xs) (auto split: if_splits)

lemma stripLeading_Nil [simp]: "stripLeading seqs [] = []"
proof -
  have "find (\<lambda>w. w \<noteq> [] \<and> prefix w []) seqs = None"
    by (simp add: find_None_iff)
  then show ?thesis
    by (subst stripLeading.simps) simp
qed

lemma trim_Nil [simp]: "trim [] = []"
  by (simp add: trim_def trimStart_def trimEnd_def)

text \<open>A character that occurs in none of the sequences stays, at the front and at the end.\<close>

lemma stripLeading_other_head:
  assumes "\<forall>w \<in> set seqs. x \<notin> set w"
  shows "stripLeading seqs (x # xs) = x # xs"
proof -
  have "\<not> (\<exists>w. w \<in> set seqs \<and> w \<noteq> [] \<and> prefix w (x # xs))"
  proof
    assume "\<exists>w. w \<in> set seqs \<and> w \<noteq> [] \<and> prefix w (x # xs)"
    then obtain w where w: "w \<in> set seqs" "w \<noteq> []" "prefix w (x # xs)"
      by blast
    from w(2,3) obtain ws where "w = x # ws"
      by (cases w) simp_all
    with w(1) assms show False
      by auto
  qed
  then have "find (\<lambda>w. w \<noteq> [] \<and> prefix w (x # xs)) seqs = None"
    by (simp add: find_None_iff)
  then show ?thesis
    by (subst stripLeading.simps) simp
qed

lemma stripLeading_other_last:
  assumes "\<forall>w \<in> set seqs. x \<notin> set w"
  shows "stripLeading seqs (xs @ [x]) \<noteq> []"
proof (induction "length xs" arbitrary: xs rule: less_induct)
  case less
  show ?case
  proof (cases "find (\<lambda>w. w \<noteq> [] \<and> prefix w (xs @ [x])) seqs")
    case None
    then show ?thesis
      by (subst stripLeading.simps) simp
  next
    case (Some w)
    then have w: "w \<in> set seqs" "w \<noteq> []" "prefix w (xs @ [x])"
      using find_Some_member [of "\<lambda>w. w \<noteq> [] \<and> prefix w (xs @ [x])" seqs w] by simp_all
    from w(3) obtain r where r: "xs @ [x] = w @ r"
      by (auto simp: prefix_def)
    have "r \<noteq> []"
    proof
      assume "r = []"
      with r have "x \<in> set w"
        by (metis append_Nil2 in_set_conv_decomp)
      with w(1) assms show False
        by blast
    qed
    then obtain r' where r': "r = r' @ [x]" and xs: "xs = w @ r'"
      using r by (cases r rule: rev_cases) auto
    from xs w(2) have "length r' < length xs"
      by (cases w) simp_all
    from less [OF this] have "stripLeading seqs (r' @ [x]) \<noteq> []" .
    moreover have "drop (length w) (xs @ [x]) = r' @ [x]"
      using xs by simp
    ultimately show ?thesis
      using Some by (subst stripLeading.simps) simp
  qed
qed

lemma trim_not_empty:
  assumes "\<forall>w \<in> set whiteSpace. x \<notin> set w"
  shows "trim (x # xs) \<noteq> []"
proof -
  have front: "trimStart (x # xs) = x # xs"
    using assms by (simp add: trimStart_def stripLeading_other_head)
  from assms have "\<forall>w \<in> set (map rev whiteSpace). x \<notin> set w"
    by simp
  then have "stripLeading (map rev whiteSpace) (rev xs @ [x]) \<noteq> []"
    by (rule stripLeading_other_last)
  with front show ?thesis
    by (simp add: trim_def trimEnd_def)
qed

section \<open>Camera facade: properties\<close>

lemma captureFrame_success:
  assumes "captureFrame cam env = (Some img, cam', sigs)"
  shows "isActive cam \<and> videoElement cam \<and> img = toDataURL env
         \<and> cam' = cam\<lparr>captureCount := captureCount cam + 1, lastCaptureTime := now env\<rparr>"
  using assms by (auto simp: captureFrame_def split: if_splits)

lemma captureFrame_within_cooldown:
  assumes "isActive cam" "videoElement cam" "now env - lastCaptureTime cam < 6000"
  shows "captureFrame cam env = (None, cam, snd tooSoon)"
  using assms by (simp add: captureFrame_def tooSoon_def)

lemma captureFrames_within_cooldown:
  assumes "isActive cam" "videoElement cam"
    and "\<forall>env \<in> set envs. now env - lastCaptureTime cam < 6000"
  shows "captureFrames cam envs = (map (\<lambda>_. tooSoon) envs, cam)"
  using assms
proof (induction envs)
  case Nil
  then show ?case by simp
next
  case (Cons env envs)
  then have "captureFrame cam env = (None, cam, snd tooSoon)"
    by (simp add: captureFrame_within_cooldown)
  with Cons show ?case by (simp add: tooSoon_def)
qed

text \<open>
  C4. Let a capture succeed at time \<open>now env\<close> and leave the manager \<open>cam'\<close>. Then
  every later call of a run whose clock readings are all less than 6000 ms after that
  capture returns no frame and raises the too-soon hint, leaving the manager as it was;
  and a call whose clock reading is 6000 ms or more after the capture, with non-zero video
  dimensions, returns the encoded frame and moves the last-capture time to its own clock
  reading (the camera is still active: a capture never deactivates it).
\<close>

theorem captureFrame_cooldown:
  assumes "captureFrame cam env = (Some img, cam', sigs)"
  shows "(\<forall>envs. (\<forall>e \<in> set envs. now e - now env < 6000) \<longrightarrow>
            captureFrames cam' envs = (map (\<lambda>_. tooSoon) envs, cam'))
       \<and> (\<forall>e. now e - now env \<ge> 6000 \<and> videoWidth e \<noteq> 0 \<and> videoHeight e \<noteq> 0 \<longrightarrow>
            (\<exists>cam''. captureFrame cam' e
                       = (Some (toDataURL e), cam'', [ShowHint ''Frame captured! Sending to AI...''])
                     \<and> lastCaptureTime cam'' = now e
                     \<and> (\<forall>e2. now e2 - now e < 6000 \<longrightarrow>
                           captureFrame cam'' e2 = (None, cam'', snd tooSoon))))"
proof -
  from captureFrame_success [OF assms]
  have act: "isActive cam'" "videoElement cam'" and last: "lastCaptureTime cam' = now env"
    by simp_all
  have run: "\<forall>envs. (\<forall>e \<in> set envs. now e - now env < 6000) \<longrightarrow>
            captureFrames cam' envs = (map (\<lambda>_. tooSoon) envs, cam')"
    using captureFrames_within_cooldown [OF act] last by simp
  have after: "\<forall>e. now e - now env \<ge> 6000 \<and> videoWidth e \<noteq> 0 \<and> videoHeight e \<noteq> 0 \<longrightarrow>
            (\<exists>cam''. captureFrame cam' e
                       = (Some (toDataURL e), cam'', [ShowHint ''Frame captured! Sending to AI...''])
                     \<and> lastCaptureTime cam'' = now e
                     \<and> (\<forall>e2. now e2 - now e < 6000 \<longrightarrow>
                           captureFrame cam'' e2 = (None, cam'', snd tooSoon)))"
    using act last by (auto simp: captureFrame_def tooSoon_def)
  from run after show ?thesis by blast
qed


theorem captureFrame_cooldown_witness:
  "captureFrame \<lparr>videoElement = True, isActive = True, captureCount = 0, lastCaptureTime = 0\<rparr>
      \<lparr>now = 10000, videoWidth = 1280, videoHeight = 720, toDataURL = ''data:image/jpeg;base64,AAAA''\<rparr>
     = (Some ''data:image/jpeg;base64,AAAA'',
        \<lparr>videoElement = True, isActive = True, captureCount = 1, lastCaptureTime = 10000\<rparr>,
        [ShowHint ''Frame captured! Sending to AI...''])
   \<and> captureFrames
        \<lparr>videoElement = True, isActive = True, captureCount = 1, lastCaptureTime = 10000\<rparr>
        [\<lparr>now = 12000, videoWidth = 1280, videoHeight = 720, toDataURL = ''data:image/jpeg;base64,BBBB''\<rparr>,
         \<lparr>now = 15999, videoWidth = 1280, videoHeight = 720, toDataURL = ''data:image/jpeg;base64,CCCC''\<rparr>]
     = ([tooSoon, tooSoon],
        \<lparr>videoElement = True, isActive = True, captureCount = 1, lastCaptureTime = 10000\<rparr>)
   \<and> (\<exists>cam''. captureFrame
        \<lparr>videoElement = True, isActive = True, captureCount = 1, lastCaptureTime = 10000\<rparr>
        \<lparr>now = 16000, videoWidth = 1280, videoHeight = 720, toDataURL = ''data:image/jpeg;base64,DDDD''\<rparr>
     = (Some ''data:image/jpeg;base64,DDDD'', cam'', [ShowHint ''Frame captured! Sending to AI...''])
       \<and> lastCaptureTime cam'' = 16000)"
proof -
  let ?cam = "\<lparr>videoElement = True, isActive = True, captureCount = 0, lastCaptureTime = 0\<rparr>"
  let ?cam' = "\<lparr>videoElement = True, isActive = True, captureCount = 1, lastCaptureTime = 10000\<rparr>"
  let ?env = "\<lparr>now = 10000, videoWidth = 1280, videoHeight = 720,
                toDataURL = ''data:image/jpeg;base64,AAAA''\<rparr>"
  let ?e1 = "\<lparr>now = 12000, videoWidth = 1280, videoHeight = 720,
               toDataURL = ''data:image/jpeg;base64,BBBB''\<rparr>"
  let ?e2 = "\<lparr>now = 15999, videoWidth = 1280, videoHeight = 720,
               toDataURL = ''data:image/jpeg;base64,CCCC''\<rparr>"
  let ?e3 = "\<lparr>now = 16000, videoWidth = 1280, videoHeight = 720,
               toDataURL = ''data:image/jpeg;base64,DDDD''\<rparr>"
  have first: "captureFrame ?cam ?env
                 = (Some ''data:image/jpeg;base64,AAAA'', ?cam', [ShowHint ''Frame captured! Sending to AI...''])"
    by (simp add: captureFrame_def)
  note cool = captureFrame_cooldown [OF first]
  from cool have "captureFrames ?cam' [?e1, ?e2] = (map (\<lambda>_. tooSoon) [?e1, ?e2], ?cam')"
    by (elim conjE allE [where x = "[?e1, ?e2]"]) simp
  moreover from cool have "\<exists>cam''. captureFrame ?cam' ?e3
       = (Some (toDataURL ?e3), cam'', [ShowHint ''Frame captured! Sending to AI...''])
       \<and> lastCaptureTime cam'' = now ?e3"
    by (elim conjE allE [where x = "?e3"]) auto
  ultimately show ?thesis using first by simp
qed

text \<open>
  C10. Whenever \<^verbatim>\<open>captureFrame\<close> returns no frame, whichever of its three guards
  refused, the manager is the one it was given: \<open>lastCaptureTime\<close> and \<open>captureCount\<close>
  (and every other field) are unchanged. Only a successful capture moves them: it adds
  one to the count and sets the last-capture time to the clock reading.
\<close>

theorem captureFrame_rejected_unchanged:
  "(captureFrame cam env = (None, cam', sigs) \<longrightarrow>
      cam' = cam \<and> lastCaptureTime cam' = lastCaptureTime cam \<and> captureCount cam' = captureCount cam)
   \<and> (captureFrame cam env = (Some img, cam', sigs) \<longrightarrow>
      lastCaptureTime cam' = now env \<and> captureCount cam' = captureCount cam + 1)"
  by (auto simp: captureFrame_def split: if_splits)

theorem captureFrame_rejected_unchanged_witness:
  "captureFrame \<lparr>videoElement = True, isActive = False, captureCount = 3, lastCaptureTime = 5000\<rparr>
      \<lparr>now = 90000, videoWidth = 1280, videoHeight = 720, toDataURL = ''data:image/jpeg;base64,AAAA''\<rparr>
     = (None, \<lparr>videoElement = True, isActive = False, captureCount = 3, lastCaptureTime = 5000\<rparr>,
        [ShowError ''Camera not active''])
   \<and> captureFrame \<lparr>videoElement = True, isActive = True, captureCount = 3, lastCaptureTime = 5000\<rparr>
      \<lparr>now = 9000, videoWidth = 1280, videoHeight = 720, toDataURL = ''data:image/jpeg;base64,AAAA''\<rparr>
     = (None, \<lparr>videoElement = True, isActive = True, captureCount = 3, lastCaptureTime = 5000\<rparr>,
        [ShowHint ''Please wait a moment before another capture''])
   \<and> captureFrame \<lparr>videoElement = True, isActive = True, captureCount = 3, lastCaptureTime = 5000\<rparr>
      \<lparr>now = 90000, videoWidth = 0, videoHeight = 720, toDataURL = ''data:image/jpeg;base64,AAAA''\<rparr>
     = (None, \<lparr>videoElement = True, isActive = True, captureCount = 3, lastCaptureTime = 5000\<rparr>,
        [ShowError ''Video not ready yet''])
   \<and> captureFrame \<lparr>videoElement = True, isActive = True, captureCount = 3, lastCaptureTime = 5000\<rparr>
      \<lparr>now = 90000, videoWidth = 1280, videoHeight = 720, toDataURL = ''data:image/jpeg;base64,AAAA''\<rparr>
     = (Some ''data:image/jpeg;base64,AAAA'',
        \<lparr>videoElement = True, isActive = True, captureCount = 4, lastCaptureTime = 90000\<rparr>,
        [ShowHint ''Frame captured! Sending to AI...''])"
  using captureFrame_rejected_unchanged
    [of "\<lparr>videoElement = True, isActive = False, captureCount = 3, lastCaptureTime = 5000\<rparr>"
        "\<lparr>now = 90000, videoWidth = 1280, videoHeight = 720, toDataURL = ''data:image/jpeg;base64,AAAA''\<rparr>"]
  by (simp add: captureFrame_def)

section \<open>Speech facade: properties\<close>

lemma speak_not_speaking:
  assumes "synthesis s" "aiSpeechEnabled s" "\<not> isSpeaking s"
  shows "speak txt cb s
           = s\<lparr>synthesisCalls := synthesisCalls s @ [Speak \<lparr>utteranceText = txt, callback = cb\<rparr>]\<rparr>"
  using assms by (simp add: speak_def stopSpeaking_def)

lemma finished_hands_over_head:
  assumes "synthesis s" "aiSpeechEnabled s" "utteranceQueue s = t # rest"
  shows "finished status u s
           = s\<lparr>isSpeaking := False, currentUtterance := None, speechStatus := status,
                utteranceQueue := rest,
                synthesisCalls := synthesisCalls s @ [Speak \<lparr>utteranceText = t, callback = callback u\<rparr>]\<rparr>"
  using assms by (simp add: finished_def speak_def stopSpeaking_def)

lemma finished_empty_queue:
  assumes "utteranceQueue s = []"
  shows "synthesisCalls (finished status u s) = synthesisCalls s"
    and "utteranceQueue (finished status u s) = []"
  using assms by (simp_all add: finished_def runCallback_def Let_def split: option.splits)

lemma speechRun_Cons: "speechRun s (e # es) = speechRun (speechStep s e) es"
  by (simp add: speechRun_def)

lemma speechRun_append: "speechRun s (es @ fs) = speechRun (speechRun s es) fs"
  by (simp add: speechRun_def)

lemma queue_while_speaking:
  assumes "isSpeaking s"
  shows "speechRun s (map CallQueueSpeech ts) = s\<lparr>utteranceQueue := utteranceQueue s @ ts\<rparr>"
  using assms
proof (induction ts arbitrary: s)
  case Nil
  then show ?case by (simp add: speechRun_def)
next
  case (Cons t ts)
  have "speechStep s (CallQueueSpeech t) = s\<lparr>utteranceQueue := utteranceQueue s @ [t]\<rparr>"
    using Cons.prems by (simp add: queueSpeech_def)
  moreover have "isSpeaking (s\<lparr>utteranceQueue := utteranceQueue s @ [t]\<rparr>)"
    using Cons.prems by simp
  ultimately show ?case
    using Cons.IH [of "s\<lparr>utteranceQueue := utteranceQueue s @ [t]\<rparr>"]
    by (simp add: speechRun_Cons)
qed

text \<open>
  The browser plays \<open>t\<close> and then the texts \<open>ts\<close> from the head of the queue: every one
  of \<open>ts\<close> is handed over in order, then the head of what is left of the queue.
\<close>

lemma playOut_hands_over:
  assumes "synthesis s" "aiSpeechEnabled s" "utteranceQueue s = ts @ rest"
  shows "synthesisCalls (speechRun s (playOut cb (t # ts)))
           = synthesisCalls s @ map (\<lambda>x. Speak \<lparr>utteranceText = x, callback = cb\<rparr>) (ts @ take 1 rest)
       \<and> utteranceQueue (speechRun s (playOut cb (t # ts))) = drop 1 rest
       \<and> \<not> isSpeaking (speechRun s (playOut cb (t # ts)))"
  using assms
proof (induction ts arbitrary: s t)
  case Nil
  let ?u = "\<lparr>utteranceText = t, callback = cb\<rparr>"
  show ?case
  proof (cases rest)
    case Nil
    with Nil.prems show ?thesis
      by (simp add: speechRun_def onstart_def onend_def finished_def runCallback_def Let_def
          split: option.splits)
  next
    case (Cons r rs)
    with Nil.prems have "utteranceQueue (onstart ?u s) = r # rs" "synthesis (onstart ?u s)"
      "aiSpeechEnabled (onstart ?u s)"
      by (simp_all add: onstart_def)
    from finished_hands_over_head [OF this(2,3,1), of "''Ready''" ?u] Cons show ?thesis
      by (simp add: speechRun_def onend_def onstart_def)
  qed
next
  case (Cons x xs)
  let ?u = "\<lparr>utteranceText = t, callback = cb\<rparr>"
  let ?s1 = "onend ?u (onstart ?u s)"
  from Cons.prems have q: "utteranceQueue (onstart ?u s) = x # (xs @ rest)"
    and sy: "synthesis (onstart ?u s)" and en: "aiSpeechEnabled (onstart ?u s)"
    by (simp_all add: onstart_def)
  from finished_hands_over_head [OF sy en q, of "''Ready''" ?u] Cons.prems(1,2)
  have s1: "synthesis ?s1" "aiSpeechEnabled ?s1" "utteranceQueue ?s1 = xs @ rest"
    "synthesisCalls ?s1 = synthesisCalls s @ [Speak \<lparr>utteranceText = x, callback = cb\<rparr>]"
    by (simp_all add: onend_def onstart_def)
  have "speechRun s (playOut cb (t # x # xs)) = speechRun ?s1 (playOut cb (x # xs))"
    by (simp add: speechRun_def)
  with Cons.IH [OF s1(1,2,3), of x] s1(4) show ?case by simp
qed

lemma completions_after_empty_queue:
  assumes "utteranceQueue s = []" "\<forall>e \<in> set evs. isCompletion e"
  shows "synthesisCalls (speechRun s evs) = synthesisCalls s \<and> utteranceQueue (speechRun s evs) = []"
  using assms
proof (induction evs arbitrary: s)
  case Nil
  then show ?case by (simp add: speechRun_def)
next
  case (Cons e evs)
  from Cons.prems obtain u where e: "e = FireEnd u \<or> e = FireError u"
    by (cases e) auto
  with Cons.prems(1) have step: "synthesisCalls (speechStep s e) = synthesisCalls s"
    "utteranceQueue (speechStep s e) = []"
    by (auto simp: onend_def onerror_def finished_empty_queue)
  from Cons.IH [OF step(2)] Cons.prems(2) step(1) show ?case
    by (simp add: speechRun_Cons)
qed

text \<open>
  C5 (as amended). Let the facade be mid-utterance on \<open>u\<close>. With speech synthesis present
  and AI speech enabled, a call \<^verbatim>\<open>speak(text)\<close> whose text is the text of \<open>u\<close> changes
  nothing: no call is made on the browser and \<open>u\<close> stays the current utterance. A call
  with any other text cancels the browser's speech, clears the facade and hands a new
  utterance with that text to the browser; once the browser starts it, it is the current
  utterance. With AI speech disabled, or without speech synthesis, a call of
  \<^verbatim>\<open>speak(text)\<close> runs its callback, if it has one, and does nothing else, whatever the
  text: no call is made on the browser, \<open>u\<close> stays the current utterance and the queue is
  as it was.
\<close>

theorem speak_mid_utterance:
  assumes "isSpeaking s" "currentUtterance s = Some u"
  shows "(synthesis s \<and> aiSpeechEnabled s \<and> utteranceText u = txt \<longrightarrow> speak txt cb s = s)
       \<and> (synthesis s \<and> aiSpeechEnabled s \<and> utteranceText u \<noteq> txt \<longrightarrow>
            speak txt cb s
              = s\<lparr>synthesisCalls :=
                     synthesisCalls s @ [Cancel, Speak \<lparr>utteranceText = txt, callback = cb\<rparr>],
                   isSpeaking := False, currentUtterance := None, utteranceQueue := [],
                   speechStatus := ''Stopped''\<rparr>
          \<and> currentUtterance (onstart \<lparr>utteranceText = txt, callback = cb\<rparr> (speak txt cb s))
              = Some \<lparr>utteranceText = txt, callback = cb\<rparr>
          \<and> isSpeaking (onstart \<lparr>utteranceText = txt, callback = cb\<rparr> (speak txt cb s)))
       \<and> (\<not> (synthesis s \<and> aiSpeechEnabled s) \<longrightarrow>
            speak txt cb s = runCallback cb s
          \<and> synthesisCalls (speak txt cb s) = synthesisCalls s
          \<and> isSpeaking (speak txt cb s)
          \<and> currentUtterance (speak txt cb s) = Some u
          \<and> utteranceQueue (speak txt cb s) = utteranceQueue s)"
proof (intro conjI impI)
  assume "synthesis s \<and> aiSpeechEnabled s \<and> utteranceText u = txt"
  with assms show "speak txt cb s = s"
    by (simp add: speak_def)
next
  assume other: "synthesis s \<and> aiSpeechEnabled s \<and> utteranceText u \<noteq> txt"
  with assms show "speak txt cb s
      = s\<lparr>synthesisCalls :=
             synthesisCalls s @ [Cancel, Speak \<lparr>utteranceText = txt, callback = cb\<rparr>],
           isSpeaking := False, currentUtterance := None, utteranceQueue := [],
           speechStatus := ''Stopped''\<rparr>"
    by (simp add: speak_def stopSpeaking_def)
  show "currentUtterance (onstart \<lparr>utteranceText = txt, callback = cb\<rparr> (speak txt cb s))
          = Some \<lparr>utteranceText = txt, callback = cb\<rparr>"
    by (simp add: onstart_def)
  show "isSpeaking (onstart \<lparr>utteranceText = txt, callback = cb\<rparr> (speak txt cb s))"
    by (simp add: onstart_def)
next
  assume off: "\<not> (synthesis s \<and> aiSpeechEnabled s)"
  then show run: "speak txt cb s = runCallback cb s"
    by (auto simp: speak_def)
  show "synthesisCalls (speak txt cb s) = synthesisCalls s"
    unfolding run by (simp add: runCallback_def split: option.splits)
  show "isSpeaking (speak txt cb s)"
    unfolding run using assms(1) by (simp add: runCallback_def split: option.splits)
  show "currentUtterance (speak txt cb s) = Some u"
    unfolding run using assms(2) by (simp add: runCallback_def split: option.splits)
  show "utteranceQueue (speak txt cb s) = utteranceQueue s"
    unfolding run by (simp add: runCallback_def split: option.splits)
qed

theorem speak_mid_utterance_witness:
  "speak ''Add the rice'' None
      \<lparr>synthesis = True, aiSpeechEnabled = True, isSpeaking = True,
       currentUtterance = Some \<lparr>utteranceText = ''Add the rice'', callback = None\<rparr>,
       utteranceQueue = [''Stir well''],
       synthesisCalls = [Speak \<lparr>utteranceText = ''Add the rice'', callback = None\<rparr>],
       callbacksRun = [], speechStatus = ''Speaking...''\<rparr>
     = \<lparr>synthesis = True, aiSpeechEnabled = True, isSpeaking = True,
        currentUtterance = Some \<lparr>utteranceText = ''Add the rice'', callback = None\<rparr>,
        utteranceQueue = [''Stir well''],
        synthesisCalls = [Speak \<lparr>utteranceText = ''Add the rice'', callback = None\<rparr>],
        callbacksRun = [], speechStatus = ''Speaking...''\<rparr>
   \<and> speak ''Add the water'' None
      \<lparr>synthesis = True, aiSpeechEnabled = True, isSpeaking = True,
       currentUtterance = Some \<lparr>utteranceText = ''Add the rice'', callback = None\<rparr>,
       utteranceQueue = [''Stir well''],
       synthesisCalls = [Speak \<lparr>utteranceText = ''Add the rice'', callback = None\<rparr>],
       callbacksRun = [], speechStatus = ''Speaking...''\<rparr>
     = \<lparr>synthesis = True, aiSpeechEnabled = True, isSpeaking = False,
        currentUtterance = None,
        utteranceQueue = [],
        synthesisCalls = [Speak \<lparr>utteranceText = ''Add the rice'', callback = None\<rparr>, Cancel,
                          Speak \<lparr>utteranceText = ''Add the water'', callback = None\<rparr>],
        callbacksRun = [], speechStatus = ''Stopped''\<rparr>
   \<and> speak ''Add the water'' (Some 7)
      \<lparr>synthesis = True, aiSpeechEnabled = False, isSpeaking = True,
       currentUtterance = Some \<lparr>utteranceText = ''Add the rice'', callback = None\<rparr>,
       utteranceQueue = [''Stir well''],
       synthesisCalls = [Speak \<lparr>utteranceText = ''Add the rice'', callback = None\<rparr>],
       callbacksRun = [], speechStatus = ''Speaking...''\<rparr>
     = \<lparr>synthesis = True, aiSpeechEnabled = False, isSpeaking = True,
        currentUtterance = Some \<lparr>utteranceText = ''Add the rice'', callback = None\<rparr>,
        utteranceQueue = [''Stir well''],
        synthesisCalls = [Speak \<lparr>utteranceText = ''Add the rice'', callback = None\<rparr>],
        callbacksRun = [7], speechStatus = ''Speaking...''\<rparr>"
proof -
  let ?u = "\<lparr>utteranceText = ''Add the rice'', callback = None\<rparr>"
  let ?s = "\<lparr>synthesis = True, aiSpeechEnabled = True, isSpeaking = True,
       currentUtterance = Some ?u, utteranceQueue = [''Stir well''],
       synthesisCalls = [Speak ?u], callbacksRun = [], speechStatus = ''Speaking...''\<rparr>"
  let ?off = "\<lparr>synthesis = True, aiSpeechEnabled = False, isSpeaking = True,
       currentUtterance = Some ?u, utteranceQueue = [''Stir well''],
       synthesisCalls = [Speak ?u], callbacksRun = [], speechStatus = ''Speaking...''\<rparr>"
  have pre: "isSpeaking ?s" "currentUtterance ?s = Some ?u"
    by simp_all
  have preOff: "isSpeaking ?off" "currentUtterance ?off = Some ?u"
    by simp_all
  from speak_mid_utterance [OF pre, of "''Add the rice''" None]
  have same: "speak ''Add the rice'' None ?s = ?s" by simp
  from speak_mid_utterance [OF pre, of "''Add the water''" None]
  have other: "speak ''Add the water'' None ?s
     = ?s\<lparr>synthesisCalls := synthesisCalls ?s @ [Cancel, Speak \<lparr>utteranceText = ''Add the water'', callback = None\<rparr>],
          isSpeaking := False, currentUtterance := None, utteranceQueue := [],
          speechStatus := ''Stopped''\<rparr>" by simp
  from speak_mid_utterance [OF preOff, of "''Add the water''" "Some 7"]
  have disabled: "speak ''Add the water'' (Some 7) ?off = runCallback (Some 7) ?off" by simp
  from same other disabled show ?thesis by (simp add: runCallback_def)
qed

text \<open>
  The claim as stated fails when AI speech is switched off between the call of
  \<^verbatim>\<open>speak\<close> and the start of its utterance: \<^verbatim>\<open>toggleSpeech\<close> has nothing to stop yet, the
  utterance starts, and the facade is mid-utterance with AI speech disabled. A call of
  \<^verbatim>\<open>speak\<close> with another text then changes nothing: the utterance is not cancelled and
  the new text is not spoken.
\<close>

theorem speak_disabled_counterexample:
  "speechRun idleSpeech
      [CallSpeak ''Add the rice'' None, CallToggleSpeech,
       FireStart \<lparr>utteranceText = ''Add the rice'', callback = None\<rparr>]
     = \<lparr>synthesis = True, aiSpeechEnabled = False, isSpeaking = True,
        currentUtterance = Some \<lparr>utteranceText = ''Add the rice'', callback = None\<rparr>,
        utteranceQueue = [],
        synthesisCalls = [Speak \<lparr>utteranceText = ''Add the rice'', callback = None\<rparr>],
        callbacksRun = [], speechStatus = ''Speaking...''\<rparr>
   \<and> speak ''Add the water'' None
        (speechRun idleSpeech
          [CallSpeak ''Add the rice'' None, CallToggleSpeech,
           FireStart \<lparr>utteranceText = ''Add the rice'', callback = None\<rparr>])
     = \<lparr>synthesis = True, aiSpeechEnabled = False, isSpeaking = True,
        currentUtterance = Some \<lparr>utteranceText = ''Add the rice'', callback = None\<rparr>,
        utteranceQueue = [],
        synthesisCalls = [Speak \<lparr>utteranceText = ''Add the rice'', callback = None\<rparr>],
        callbacksRun = [], speechStatus = ''Speaking...''\<rparr>"
proof -
  let ?u = "\<lparr>utteranceText = ''Add the rice'', callback = None\<rparr>"
  have run: "speechRun idleSpeech [CallSpeak ''Add the rice'' None, CallToggleSpeech, FireStart ?u]
     = \<lparr>synthesis = True, aiSpeechEnabled = False, isSpeaking = True,
        currentUtterance = Some ?u, utteranceQueue = [], synthesisCalls = [Speak ?u],
        callbacksRun = [], speechStatus = ''Speaking...''\<rparr>"
    by (simp add: speechRun_def idleSpeech_def speak_def stopSpeaking_def toggleSpeech_def
        onstart_def Let_def)
  show ?thesis
    unfolding run by (simp add: speak_def runCallback_def)
qed

text \<open>
  The queue in an undisturbed run. \<^verbatim>\<open>queueSpeech(text)\<close> appends the text to the queue
  when the facade is speaking and calls \<^verbatim>\<open>speak(text)\<close> otherwise. With speech synthesis
  present and AI speech enabled, let the facade be mid-utterance on \<open>u\<close>, let the texts
  \<open>ts\<close> be queued, and let the browser then end \<open>u\<close> and play out, one after the other,
  the first \<open>k\<close> texts handed to it, with no call of the facade in between. At that
  moment the texts handed to the browser are exactly the first \<open>k + 1\<close> texts of the
  queue, in the order in which they were queued, and the queue holds the others: every end
  of an utterance takes the head of the queue, and only the head.
\<close>

theorem queueSpeech_fifo:
  "(isSpeaking s \<longrightarrow> queueSpeech txt s = s\<lparr>utteranceQueue := utteranceQueue s @ [txt]\<rparr>)
   \<and> (\<not> isSpeaking s \<longrightarrow> queueSpeech txt s = speak txt None s)
   \<and> (synthesis s \<and> aiSpeechEnabled s \<and> isSpeaking s \<and> currentUtterance s = Some u \<longrightarrow>
        (\<forall>ts k. k \<le> length (utteranceQueue s @ ts) \<longrightarrow>
           synthesisCalls
              (speechRun s (map CallQueueSpeech ts
                 @ FireEnd u # playOut (callback u) (take k (utteranceQueue s @ ts))))
             = synthesisCalls s
                 @ map (\<lambda>x. Speak \<lparr>utteranceText = x, callback = callback u\<rparr>)
                     (take (Suc k) (utteranceQueue s @ ts))
         \<and> utteranceQueue
              (speechRun s (map CallQueueSpeech ts
                 @ FireEnd u # playOut (callback u) (take k (utteranceQueue s @ ts))))
             = drop (Suc k) (utteranceQueue s @ ts)))"
proof (intro conjI impI allI)
  show "queueSpeech txt s = s\<lparr>utteranceQueue := utteranceQueue s @ [txt]\<rparr>" if "isSpeaking s"
    using that by (simp add: queueSpeech_def)
  show "queueSpeech txt s = speak txt None s" if "\<not> isSpeaking s"
    using that by (simp add: queueSpeech_def)
next
  fix ts k
  assume mid: "synthesis s \<and> aiSpeechEnabled s \<and> isSpeaking s \<and> currentUtterance s = Some u"
    and k: "k \<le> length (utteranceQueue s @ ts)"
  define q where "q = utteranceQueue s @ ts"
  define cb where "cb = callback u"
  define s0 where "s0 = s\<lparr>utteranceQueue := q\<rparr>"
  define s1 where "s1 = onend u s0"
  let ?mk = "\<lambda>x. Speak \<lparr>utteranceText = x, callback = cb\<rparr>"
  have run: "speechRun s (map CallQueueSpeech ts @ FireEnd u # playOut cb (take k q))
               = speechRun s1 (playOut cb (take k q))"
    using mid by (simp add: speechRun_append queue_while_speaking speechRun_Cons q_def s0_def s1_def)
  have s0: "synthesis s0" "aiSpeechEnabled s0" "utteranceQueue s0 = q"
    "synthesisCalls s0 = synthesisCalls s"
    using mid by (simp_all add: s0_def)
  have both: "synthesisCalls (speechRun s1 (playOut cb (take k q)))
                = synthesisCalls s @ map ?mk (take (Suc k) q)
            \<and> utteranceQueue (speechRun s1 (playOut cb (take k q))) = drop (Suc k) q"
  proof (cases q)
    case Nil
    with s0 have "synthesisCalls s1 = synthesisCalls s" "utteranceQueue s1 = []"
      by (simp_all add: s1_def onend_def finished_empty_queue)
    with Nil show ?thesis by (simp add: speechRun_def)
  next
    case (Cons t rest)
    from finished_hands_over_head [OF s0(1,2), of t rest "''Ready''" u] s0 Cons
    have s1: "synthesis s1" "aiSpeechEnabled s1"
      "utteranceQueue s1 = rest" "synthesisCalls s1 = synthesisCalls s @ [?mk t]"
      by (simp_all add: s1_def onend_def cb_def)
    show ?thesis
    proof (cases k)
      case 0
      with s1 Cons show ?thesis by (simp add: speechRun_def)
    next
      case (Suc j)
      have split: "utteranceQueue s1 = take j rest @ drop j rest"
        using s1(3) by simp
      have tk: "take k q = t # take j rest"
        using Cons Suc by simp
      have tj: "take j rest @ take 1 (drop j rest) = take (Suc j) rest"
        using take_add [of j 1 rest] by simp
      from playOut_hands_over [OF s1(1,2) split, of cb t]
      have "synthesisCalls (speechRun s1 (playOut cb (take k q)))
              = synthesisCalls s1 @ map ?mk (take (Suc j) rest)"
        and "utteranceQueue (speechRun s1 (playOut cb (take k q))) = drop 1 (drop j rest)"
        unfolding tk tj by blast+
      moreover have "take (Suc k) q = t # take (Suc j) rest"
        "drop (Suc k) q = drop 1 (drop j rest)"
        using Cons Suc by simp_all
      ultimately show ?thesis
        using s1(4) by simp
    qed
  qed
  from both run
  show "synthesisCalls
          (speechRun s (map CallQueueSpeech ts
             @ FireEnd u # playOut (callback u) (take k (utteranceQueue s @ ts))))
         = synthesisCalls s
             @ map (\<lambda>x. Speak \<lparr>utteranceText = x, callback = callback u\<rparr>)
                 (take (Suc k) (utteranceQueue s @ ts))"
    unfolding q_def cb_def by simp
  from both run
  show "utteranceQueue
          (speechRun s (map CallQueueSpeech ts
             @ FireEnd u # playOut (callback u) (take k (utteranceQueue s @ ts))))
         = drop (Suc k) (utteranceQueue s @ ts)"
    unfolding q_def cb_def by simp
qed

theorem queueSpeech_fifo_witness:
  "queueSpeech ''Add the water''
      \<lparr>synthesis = True, aiSpeechEnabled = True, isSpeaking = True,
       currentUtterance = Some \<lparr>utteranceText = ''Wash the rice'', callback = None\<rparr>,
       utteranceQueue = [''Heat the oil''],
       synthesisCalls = [Speak \<lparr>utteranceText = ''Wash the rice'', callback = None\<rparr>],
       callbacksRun = [], speechStatus = ''Speaking...''\<rparr>
     = \<lparr>synthesis = True, aiSpeechEnabled = True, isSpeaking = True,
        currentUtterance = Some \<lparr>utteranceText = ''Wash the rice'', callback = None\<rparr>,
        utteranceQueue = [''Heat the oil'', ''Add the water''],
        synthesisCalls = [Speak \<lparr>utteranceText = ''Wash the rice'', callback = None\<rparr>],
        callbacksRun = [], speechStatus = ''Speaking...''\<rparr>
   \<and> synthesisCalls
        (speechRun
          \<lparr>synthesis = True, aiSpeechEnabled = True, isSpeaking = True,
           currentUtterance = Some \<lparr>utteranceText = ''Wash the rice'', callback = None\<rparr>,
           utteranceQueue = [''Heat the oil''],
           synthesisCalls = [Speak \<lparr>utteranceText = ''Wash the rice'', callback = None\<rparr>],
           callbacksRun = [], speechStatus = ''Speaking...''\<rparr>
          [CallQueueSpeech ''Add the water'', CallQueueSpeech ''Serve hot'',
           FireEnd \<lparr>utteranceText = ''Wash the rice'', callback = None\<rparr>,
           FireStart \<lparr>utteranceText = ''Heat the oil'', callback = None\<rparr>,
           FireEnd \<lparr>utteranceText = ''Heat the oil'', callback = None\<rparr>])
     = [Speak \<lparr>utteranceText = ''Wash the rice'', callback = None\<rparr>,
        Speak \<lparr>utteranceText = ''Heat the oil'', callback = None\<rparr>,
        Speak \<lparr>utteranceText = ''Add the water'', callback = None\<rparr>]
   \<and> utteranceQueue
        (speechRun
          \<lparr>synthesis = True, aiSpeechEnabled = True, isSpeaking = True,
           currentUtterance = Some \<lparr>utteranceText = ''Wash the rice'', callback = None\<rparr>,
           utteranceQueue = [''Heat the oil''],
           synthesisCalls = [Speak \<lparr>utteranceText = ''Wash the rice'', callback = None\<rparr>],
           callbacksRun = [], speechStatus = ''Speaking...''\<rparr>
          [CallQueueSpeech ''Add the water'', CallQueueSpeech ''Serve hot'',
           FireEnd \<lparr>utteranceText = ''Wash the rice'', callback = None\<rparr>,
           FireStart \<lparr>utteranceText = ''Heat the oil'', callback = None\<rparr>,
           FireEnd \<lparr>utteranceText = ''Heat the oil'', callback = None\<rparr>])
     = [''Serve hot'']"
proof -
  let ?u = "\<lparr>utteranceText = ''Wash the rice'', callback = None\<rparr>"
  let ?s = "\<lparr>synthesis = True, aiSpeechEnabled = True, isSpeaking = True,
       currentUtterance = Some ?u, utteranceQueue = [''Heat the oil''],
       synthesisCalls = [Speak ?u], callbacksRun = [], speechStatus = ''Speaking...''\<rparr>"
  note fifo = queueSpeech_fifo [of ?s "''Add the water''" ?u]
  from fifo have a: "queueSpeech ''Add the water'' ?s
      = ?s\<lparr>utteranceQueue := utteranceQueue ?s @ [''Add the water'']\<rparr>"
    by simp
  from fifo have "\<forall>ts k. k \<le> length (utteranceQueue ?s @ ts) \<longrightarrow>
           synthesisCalls
              (speechRun ?s (map CallQueueSpeech ts
                 @ FireEnd ?u # playOut (callback ?u) (take k (utteranceQueue ?s @ ts))))
             = synthesisCalls ?s
                 @ map (\<lambda>x. Speak \<lparr>utteranceText = x, callback = callback ?u\<rparr>)
                     (take (Suc k) (utteranceQueue ?s @ ts))
         \<and> utteranceQueue
              (speechRun ?s (map CallQueueSpeech ts
                 @ FireEnd ?u # playOut (callback ?u) (take k (utteranceQueue ?s @ ts))))
             = drop (Suc k) (utteranceQueue ?s @ ts)"
    by simp
  from this [rule_format, of 1 "[''Add the water'', ''Serve hot'']"]
  have b: "synthesisCalls
              (speechRun ?s [CallQueueSpeech ''Add the water'', CallQueueSpeech ''Serve hot'',
                 FireEnd ?u, FireStart \<lparr>utteranceText = ''Heat the oil'', callback = None\<rparr>,
                 FireEnd \<lparr>utteranceText = ''Heat the oil'', callback = None\<rparr>])
             = [Speak ?u, Speak \<lparr>utteranceText = ''Heat the oil'', callback = None\<rparr>,
                Speak \<lparr>utteranceText = ''Add the water'', callback = None\<rparr>]"
    and c: "utteranceQueue
              (speechRun ?s [CallQueueSpeech ''Add the water'', CallQueueSpeech ''Serve hot'',
                 FireEnd ?u, FireStart \<lparr>utteranceText = ''Heat the oil'', callback = None\<rparr>,
                 FireEnd \<lparr>utteranceText = ''Heat the oil'', callback = None\<rparr>])
             = [''Serve hot'']"
    by simp_all
  from a b c show ?thesis by simp
qed

text \<open>
  C6. The claim: the texts given to \<^verbatim>\<open>queueSpeech\<close> are spoken strictly in the order in
  which they were given, one utterance at a time. The facade takes itself to be speaking
  from the \<^verbatim>\<open>onstart\<close> of an utterance to its \<^verbatim>\<open>onend\<close>, so between the end of one
  utterance and the start of the next, which \<^verbatim>\<open>onend\<close> has already handed to the
  browser, \<^verbatim>\<open>queueSpeech\<close> finds the flag down and speaks at once. In the run below
  "Wash the rice" plays while "Heat the oil" and "Add the water" are queued; it ends, and
  "Serve hot" is given before "Heat the oil" has started. "Serve hot" goes to the browser
  ahead of "Add the water", which still waits in the queue, and the browser holds two
  utterances that have not ended, "Heat the oil" and "Serve hot". The texts reach the
  browser in the order first, second, fourth, third.
\<close>

theorem queueSpeech_overtakes:
  "synthesisCalls
     (speechRun idleSpeech
        [CallQueueSpeech ''Wash the rice'',
         FireStart \<lparr>utteranceText = ''Wash the rice'', callback = None\<rparr>,
         CallQueueSpeech ''Heat the oil'', CallQueueSpeech ''Add the water'',
         FireEnd \<lparr>utteranceText = ''Wash the rice'', callback = None\<rparr>,
         CallQueueSpeech ''Serve hot''])
     = [Speak \<lparr>utteranceText = ''Wash the rice'', callback = None\<rparr>,
        Speak \<lparr>utteranceText = ''Heat the oil'', callback = None\<rparr>,
        Speak \<lparr>utteranceText = ''Serve hot'', callback = None\<rparr>]
   \<and> utteranceQueue
     (speechRun idleSpeech
        [CallQueueSpeech ''Wash the rice'',
         FireStart \<lparr>utteranceText = ''Wash the rice'', callback = None\<rparr>,
         CallQueueSpeech ''Heat the oil'', CallQueueSpeech ''Add the water'',
         FireEnd \<lparr>utteranceText = ''Wash the rice'', callback = None\<rparr>,
         CallQueueSpeech ''Serve hot''])
     = [''Add the water'']
   \<and> synthesisCalls
     (speechRun idleSpeech
        [CallQueueSpeech ''Wash the rice'',
         FireStart \<lparr>utteranceText = ''Wash the rice'', callback = None\<rparr>,
         CallQueueSpeech ''Heat the oil'', CallQueueSpeech ''Add the water'',
         FireEnd \<lparr>utteranceText = ''Wash the rice'', callback = None\<rparr>,
         CallQueueSpeech ''Serve hot'',
         FireStart \<lparr>utteranceText = ''Heat the oil'', callback = None\<rparr>,
         FireEnd \<lparr>utteranceText = ''Heat the oil'', callback = None\<rparr>])
     = [Speak \<lparr>utteranceText = ''Wash the rice'', callback = None\<rparr>,
        Speak \<lparr>utteranceText = ''Heat the oil'', callback = None\<rparr>,
        Speak \<lparr>utteranceText = ''Serve hot'', callback = None\<rparr>,
        Speak \<lparr>utteranceText = ''Add the water'', callback = None\<rparr>]"
  by (simp add: speechRun_def idleSpeech_def queueSpeech_def speak_def stopSpeaking_def
      onstart_def onend_def finished_def Let_def)

text \<open>
  C7. With speech synthesis present, \<^verbatim>\<open>stopSpeaking\<close> called while an utterance is
  playing cancels the browser's speech and leaves the queue empty. Whatever handlers of
  ended, failed or cancelled utterances the browser fires afterwards, no further call is
  made on the browser: nothing that was queued is spoken.
\<close>

theorem stopSpeaking_clears_queue:
  assumes "synthesis s" "isSpeaking s"
  shows "stopSpeaking s
           = s\<lparr>synthesisCalls := synthesisCalls s @ [Cancel], isSpeaking := False,
                currentUtterance := None, utteranceQueue := [], speechStatus := ''Stopped''\<rparr>
       \<and> (\<forall>evs. (\<forall>e \<in> set evs. isCompletion e) \<longrightarrow>
             synthesisCalls (speechRun (stopSpeaking s) evs) = synthesisCalls s @ [Cancel]
           \<and> utteranceQueue (speechRun (stopSpeaking s) evs) = [])"
proof -
  have stop: "stopSpeaking s
           = s\<lparr>synthesisCalls := synthesisCalls s @ [Cancel], isSpeaking := False,
                currentUtterance := None, utteranceQueue := [], speechStatus := ''Stopped''\<rparr>"
    using assms by (simp add: stopSpeaking_def)
  then have "utteranceQueue (stopSpeaking s) = []"
    and "synthesisCalls (stopSpeaking s) = synthesisCalls s @ [Cancel]"
    by simp_all
  with completions_after_empty_queue [of "stopSpeaking s"] stop show ?thesis
    by simp
qed

theorem stopSpeaking_clears_queue_witness:
  "stopSpeaking
      \<lparr>synthesis = True, aiSpeechEnabled = True, isSpeaking = True,
       currentUtterance = Some \<lparr>utteranceText = ''Wash the rice'', callback = None\<rparr>,
       utteranceQueue = [''Heat the oil'', ''Add the water''],
       synthesisCalls = [Speak \<lparr>utteranceText = ''Wash the rice'', callback = None\<rparr>],
       callbacksRun = [], speechStatus = ''Speaking...''\<rparr>
     = \<lparr>synthesis = True, aiSpeechEnabled = True, isSpeaking = False,
        currentUtterance = None, utteranceQueue = [],
        synthesisCalls = [Speak \<lparr>utteranceText = ''Wash the rice'', callback = None\<rparr>, Cancel],
        callbacksRun = [], speechStatus = ''Stopped''\<rparr>
   \<and> synthesisCalls
        (speechRun
          (stopSpeaking
            \<lparr>synthesis = True, aiSpeechEnabled = True, isSpeaking = True,
             currentUtterance = Some \<lparr>utteranceText = ''Wash the rice'', callback = None\<rparr>,
             utteranceQueue = [''Heat the oil'', ''Add the water''],
             synthesisCalls = [Speak \<lparr>utteranceText = ''Wash the rice'', callback = None\<rparr>],
             callbacksRun = [], speechStatus = ''Speaking...''\<rparr>)
          [FireError \<lparr>utteranceText = ''Wash the rice'', callback = None\<rparr>,
           FireEnd \<lparr>utteranceText = ''Wash the rice'', callback = None\<rparr>])
     = [Speak \<lparr>utteranceText = ''Wash the rice'', callback = None\<rparr>, Cancel]"
proof -
  let ?u = "\<lparr>utteranceText = ''Wash the rice'', callback = None\<rparr>"
  let ?s = "\<lparr>synthesis = True, aiSpeechEnabled = True, isSpeaking = True,
       currentUtterance = Some ?u, utteranceQueue = [''Heat the oil'', ''Add the water''],
       synthesisCalls = [Speak ?u], callbacksRun = [], speechStatus = ''Speaking...''\<rparr>"
  have pre: "synthesis ?s" "isSpeaking ?s" by simp_all
  note stop = stopSpeaking_clears_queue [OF pre]
  from stop have a: "stopSpeaking ?s
           = ?s\<lparr>synthesisCalls := synthesisCalls ?s @ [Cancel], isSpeaking := False,
                currentUtterance := None, utteranceQueue := [], speechStatus := ''Stopped''\<rparr>"
    by blast
  from stop have later: "\<forall>evs. (\<forall>e \<in> set evs. isCompletion e) \<longrightarrow>
             synthesisCalls (speechRun (stopSpeaking ?s) evs) = synthesisCalls ?s @ [Cancel]"
    by blast
  from spec [OF later, of "[FireError ?u, FireEnd ?u]"]
  have b: "synthesisCalls (speechRun (stopSpeaking ?s) [FireError ?u, FireEnd ?u])
             = [Speak ?u, Cancel]"
    by simp
  from a b show ?thesis by simp
qed

section \<open>AI client: properties of the retry loop\<close>

lemma callGeminiAPI_all_fail:
  assumes "retryCount \<le> maxRetries mgr"
    and "\<forall>k. retryCount \<le> k \<and> k \<le> maxRetries mgr \<longrightarrow> isl (attempt (net messages k))"
  shows "callGeminiAPI mgr net messages retryCount
           = (Inl (handleSpecificErrors (projl (attempt (net messages (maxRetries mgr))))),
              concat (map (\<lambda>k. [Fetch k, Delay (1000 * (k + 1))]) [retryCount..<maxRetries mgr])
                @ [Fetch (maxRetries mgr)])"
  using assms
proof (induction "maxRetries mgr - retryCount" arbitrary: retryCount)
  case 0
  then have eq: "retryCount = maxRetries mgr" by simp
  from 0 obtain e where "attempt (net messages retryCount) = Inl e"
    by (metis eq le_refl sum.collapse(1))
  then show ?case
    by (subst callGeminiAPI.simps) (simp add: eq)
next
  case (Suc n)
  then have lt: "retryCount < maxRetries mgr" by simp
  from Suc.prems obtain e where e: "attempt (net messages retryCount) = Inl e"
    by (metis le_refl sum.collapse(1))
  have "callGeminiAPI mgr net messages (retryCount + 1)
           = (Inl (handleSpecificErrors (projl (attempt (net messages (maxRetries mgr))))),
              concat (map (\<lambda>k. [Fetch k, Delay (1000 * (k + 1))]) [retryCount + 1..<maxRetries mgr])
                @ [Fetch (maxRetries mgr)])"
    using Suc.hyps(1) [of "retryCount + 1"] Suc.hyps(2) Suc.prems lt by simp
  then show ?case
    using e lt by (subst callGeminiAPI.simps) (simp add: upt_conv_Cons)
qed

lemma callGeminiAPI_failure_means_all_failed:
  assumes "isl (fst (callGeminiAPI mgr net messages retryCount))" "retryCount \<le> k" "k \<le> maxRetries mgr"
  shows "isl (attempt (net messages k))"
  using assms
proof (induction mgr net messages retryCount rule: callGeminiAPI.induct)
  case (1 mgr net messages retryCount)
  show ?case
  proof (cases "attempt (net messages retryCount)")
    case (Inr answer)
    with "1.prems"(1) show ?thesis
      by (subst (asm) callGeminiAPI.simps) simp
  next
    case (Inl e)
    show ?thesis
    proof (cases "k = retryCount")
      case True
      with Inl show ?thesis by simp
    next
      case False
      with "1.prems" have lt: "retryCount < maxRetries mgr" and k: "retryCount + 1 \<le> k"
        by simp_all
      from "1.prems"(1) Inl lt have "isl (fst (callGeminiAPI mgr net messages (retryCount + 1)))"
        by (subst (asm) callGeminiAPI.simps) (simp split: prod.splits)
      from "1.IH" [OF Inl lt this k "1.prems"(3)] show ?thesis .
    qed
  qed
qed

lemma delays_schedule:
  "delays (concat (map (\<lambda>k. [Fetch k, Delay (1000 * (k + 1))]) [a..<b]) @ [Fetch b])
     = map (\<lambda>k. 1000 * (k + 1)) [a..<b]"
  by (induction b) (simp_all add: delays_def)

lemma fetches_schedule:
  "a \<le> b \<Longrightarrow>
   fetches (concat (map (\<lambda>k. [Fetch k, Delay (1000 * (k + 1))]) [a..<b]) @ [Fetch b]) = [a..<b + 1]"
  by (induction b) (auto simp: fetches_def le_Suc_eq)

lemma retry_delays:
  "map (\<lambda>k. 1000 * (k + 1)) [0..<n] = map (\<lambda>k. 1000 * k) [1..<n + 1]"
  by (induction n) simp_all

text \<open>
  The retry loop. For every message list and every network: a call of
  \<^verbatim>\<open>callGeminiAPI\<close> fails exactly when the initial attempt and all \<open>maxRetries\<close> retries
  fail, for whatever reason. In that case the call makes \<open>maxRetries + 1\<close> fetches, waits
  1000 ms times the number of the retry before each retry, so that the delays are
  strictly increasing, and throws the error of the last retry as the \<^verbatim>\<open>catch\<close> block
  reports it.
\<close>

theorem callGeminiAPI_retries:
  "(isl (fst (callGeminiAPI mgr net messages 0))
      \<longleftrightarrow> (\<forall>k \<le> maxRetries mgr. isl (attempt (net messages k))))
   \<and> ((\<forall>k \<le> maxRetries mgr. isl (attempt (net messages k))) \<longrightarrow>
        fst (callGeminiAPI mgr net messages 0)
          = Inl (handleSpecificErrors (projl (attempt (net messages (maxRetries mgr)))))
      \<and> snd (callGeminiAPI mgr net messages 0)
          = concat (map (\<lambda>k. [Fetch k, Delay (1000 * (k + 1))]) [0..<maxRetries mgr])
              @ [Fetch (maxRetries mgr)]
      \<and> fetches (snd (callGeminiAPI mgr net messages 0)) = [0..<maxRetries mgr + 1]
      \<and> delays (snd (callGeminiAPI mgr net messages 0))
          = map (\<lambda>k. 1000 * k) [1..<maxRetries mgr + 1]
      \<and> sorted_wrt (<) (delays (snd (callGeminiAPI mgr net messages 0))))"
proof (intro conjI impI iffI)
  assume "isl (fst (callGeminiAPI mgr net messages 0))"
  then show "\<forall>k \<le> maxRetries mgr. isl (attempt (net messages k))"
    using callGeminiAPI_failure_means_all_failed [of mgr net messages 0] by simp
next
  assume "\<forall>k \<le> maxRetries mgr. isl (attempt (net messages k))"
  then show "isl (fst (callGeminiAPI mgr net messages 0))"
    by (simp add: callGeminiAPI_all_fail [of 0 mgr net messages])
next
  assume allFail: "\<forall>k \<le> maxRetries mgr. isl (attempt (net messages k))"
  then have call: "callGeminiAPI mgr net messages 0
           = (Inl (handleSpecificErrors (projl (attempt (net messages (maxRetries mgr))))),
              concat (map (\<lambda>k. [Fetch k, Delay (1000 * (k + 1))]) [0..<maxRetries mgr])
                @ [Fetch (maxRetries mgr)])"
    by (simp add: callGeminiAPI_all_fail [of 0 mgr net messages])
  show "fst (callGeminiAPI mgr net messages 0)
          = Inl (handleSpecificErrors (projl (attempt (net messages (maxRetries mgr)))))"
    by (simp only: call fst_conv)
  show "snd (callGeminiAPI mgr net messages 0)
          = concat (map (\<lambda>k. [Fetch k, Delay (1000 * (k + 1))]) [0..<maxRetries mgr])
              @ [Fetch (maxRetries mgr)]"
    by (simp only: call snd_conv)
  show "fetches (snd (callGeminiAPI mgr net messages 0)) = [0..<maxRetries mgr + 1]"
    by (simp only: call snd_conv fetches_schedule [of 0 "maxRetries mgr", OF le0])
  show delays: "delays (snd (callGeminiAPI mgr net messages 0))
          = map (\<lambda>k. 1000 * k) [1..<maxRetries mgr + 1]"
    by (simp only: call snd_conv delays_schedule retry_delays)
  have "sorted_wrt (\<lambda>i j. 1000 * i < 1000 * j) [1..<maxRetries mgr + 1]"
    using sorted_wrt_upt [of 1 "maxRetries mgr + 1"] by simp
  then show "sorted_wrt (<) (delays (snd (callGeminiAPI mgr net messages 0)))"
    by (simp only: delays sorted_wrt_map)
qed

theorem callGeminiAPI_retries_witness:
  "isl (fst (callGeminiAPI chef serverDown [] 0))
   \<and> snd (callGeminiAPI chef serverDown [] 0)
       = [Fetch 0, Delay 1000, Fetch 1, Delay 2000, Fetch 2, Delay 3000, Fetch 3]
   \<and> fetches (snd (callGeminiAPI chef serverDown [] 0)) = [0, 1, 2, 3]
   \<and> delays (snd (callGeminiAPI chef serverDown [] 0)) = [1000, 2000, 3000]
   \<and> maxRetries chef = 3"
proof -
  have allFail: "\<forall>k \<le> maxRetries chef. isl (attempt (serverDown [] k))"
    by (simp add: serverDown_def)
  have three: "maxRetries chef = 3" by (simp add: chef_def)
  have upt: "[0..<3] = [0, 1, 2]" "[0..<4] = [0, 1, 2, 3]" "[1..<4] = [1, 2, 3]"
    by (simp_all add: upt_rec)
  from callGeminiAPI_retries [of chef serverDown "[]"] allFail
  show ?thesis by (simp add: three upt fetches_def delays_def)
qed

text \<open>
  C1. The claim calls the delay between attempts exponentially increasing, and so does
  the comment beside the wait in \<^verbatim>\<open>callGeminiAPI\<close> ("Exponential backoff"). The wait made
  is \<^verbatim>\<open>1000 * (retryCount + 1)\<close> ms. With the three retries of the constructor and
  every attempt failing, the call makes four fetches and waits 1000, 2000 and 3000 ms
  between them: the delays grow by a constant step and not by a constant factor, so they
  do not increase exponentially.
\<close>

theorem callGeminiAPI_delays_not_exponential:
  "snd (callGeminiAPI chef serverDown [] 0)
     = [Fetch 0, Delay 1000, Fetch 1, Delay 2000, Fetch 2, Delay 3000, Fetch 3]
   \<and> delays (snd (callGeminiAPI chef serverDown [] 0)) = [1000, 2000, 3000]
   \<and> \<not> exponentiallyIncreasing (delays (snd (callGeminiAPI chef serverDown [] 0)))"
proof -
  have allFail: "\<forall>k. 0 \<le> k \<and> k \<le> maxRetries chef \<longrightarrow> isl (attempt (serverDown [] k))"
    by (simp add: serverDown_def)
  have three: "maxRetries chef = 3" by (simp add: chef_def)
  have "[0..<3] = [0, 1, 2]" by (simp add: upt_rec)
  with callGeminiAPI_all_fail [of 0 chef serverDown "[]"] allFail three
  have events: "snd (callGeminiAPI chef serverDown [] 0)
     = [Fetch 0, Delay 1000, Fetch 1, Delay 2000, Fetch 2, Delay 3000, Fetch 3]"
    by simp
  then have "delays (snd (callGeminiAPI chef serverDown [] 0)) = [1000, 2000, 3000]"
    by (simp add: delays_def)
  with events show ?thesis by (simp add: exponentiallyIncreasing_def)
qed

section \<open>AI client: properties of the response parsing\<close>

lemma TypeError_not_InvalidResponseFormat: "TypeError what \<noteq> InvalidResponseFormat"
  by (simp add: TypeError_def InvalidResponseFormat_def)

lemma handleSpecificErrors_InvalidResponseFormat:
  "handleSpecificErrors InvalidResponseFormat = InvalidResponseFormat"
  by (simp add: handleSpecificErrors_def InvalidResponseFormat_def)

lemma firstPartText_not_InvalidResponseFormat:
  "firstPartText content \<noteq> Inl InvalidResponseFormat"
  by (auto simp: firstPartText_def TypeError_not_InvalidResponseFormat
      split: option.splits json.splits if_splits)

lemma responseText_with_content:
  assumes "getMember ''candidates'' data = Some candidates" "truthy candidates"
    and "getFirst candidates = Some candidate" "truthy candidate"
    and "getMember ''content'' candidate = Some content" "truthy content"
  shows "responseText data = firstPartText content"
proof -
  from assms(1) have "data \<noteq> JNull" by auto
  with assms show ?thesis by (simp add: responseText_def)
qed

lemma responseText_without_content:
  assumes "data \<noteq> JNull"
    and "\<not> (\<exists>candidates candidate content.
            getMember ''candidates'' data = Some candidates \<and> truthy candidates
          \<and> getFirst candidates = Some candidate \<and> truthy candidate
          \<and> getMember ''content'' candidate = Some content \<and> truthy content)"
  shows "responseText data = Inl InvalidResponseFormat"
proof (cases "getMember ''candidates'' data")
  case None
  with assms(1) show ?thesis by (simp add: responseText_def)
next
  case c: (Some candidates)
  show ?thesis
  proof (cases "truthy candidates")
    case False
    with assms(1) c show ?thesis by (simp add: responseText_def)
  next
    case tc: True
    show ?thesis
    proof (cases "getFirst candidates")
      case None
      with assms(1) c tc show ?thesis by (simp add: responseText_def)
    next
      case f: (Some candidate)
      show ?thesis
      proof (cases "truthy candidate")
        case False
        with assms(1) c tc f show ?thesis by (simp add: responseText_def)
      next
        case tf: True
        show ?thesis
        proof (cases "getMember ''content'' candidate")
          case None
          with assms(1) c tc f tf show ?thesis by (simp add: responseText_def)
        next
          case (Some content)
          have "\<not> truthy content"
          proof
            assume "truthy content"
            with c tc f tf Some assms(2) show False by blast
          qed
          with assms(1) c tc f tf Some show ?thesis by (simp add: responseText_def)
        qed
      qed
    qed
  qed
qed

lemma callGeminiAPI_first_answer:
  assumes "attempt (net messages 0) = Inr answer"
  shows "callGeminiAPI mgr net messages 0 = (Inr answer, [Fetch 0])"
  using assms by (subst callGeminiAPI.simps) simp

lemma callGeminiAPI_later_answer:
  assumes "retryCount \<le> k" "k \<le> maxRetries mgr"
    and "\<forall>j. retryCount \<le> j \<and> j < k \<longrightarrow> isl (attempt (net messages j))"
    and "attempt (net messages k) = Inr answer"
  shows "fst (callGeminiAPI mgr net messages retryCount) = Inr answer"
  using assms
proof (induction "k - retryCount" arbitrary: retryCount)
  case 0
  then have "retryCount = k" by simp
  with 0 show ?case
    by (subst callGeminiAPI.simps) simp
next
  case (Suc n)
  then have lt: "retryCount < k" by simp
  with Suc.prems(3) have "isl (attempt (net messages retryCount))"
    by simp
  then obtain e where e: "attempt (net messages retryCount) = Inl e"
    by (cases "attempt (net messages retryCount)") simp_all
  have "fst (callGeminiAPI mgr net messages (retryCount + 1)) = Inr answer"
    using Suc.hyps(1) [of "retryCount + 1"] Suc.hyps(2) Suc.prems lt by simp
  then obtain events where "callGeminiAPI mgr net messages (retryCount + 1) = (Inr answer, events)"
    by (cases "callGeminiAPI mgr net messages (retryCount + 1)") simp
  then show ?case
    using e lt Suc.prems(2) by (subst callGeminiAPI.simps) simp
qed

lemma handleSpecificErrors_TypeError_parts:
  "handleSpecificErrors (TypeError ''content.parts[0]'') = TypeError ''content.parts[0]''"
  by (simp add: handleSpecificErrors_def TypeError_def)

lemma callGeminiAPI_same_answer:
  assumes "\<forall>k \<le> maxRetries mgr. net messages k = HttpOk (Inr data)"
  shows "fst (callGeminiAPI mgr net messages 0)
           = (case responseText data of
                Inr answer \<Rightarrow> Inr answer
              | Inl e \<Rightarrow> Inl (handleSpecificErrors e))"
proof (cases "responseText data")
  case (Inr answer)
  with assms have "attempt (net messages 0) = Inr answer" by simp
  from callGeminiAPI_first_answer [of net messages answer mgr, OF this] Inr show ?thesis by simp
next
  case (Inl e)
  with assms have "\<forall>k. 0 \<le> k \<and> k \<le> maxRetries mgr \<longrightarrow> isl (attempt (net messages k))"
    by simp
  from callGeminiAPI_all_fail [of 0 mgr net messages] this
  have "fst (callGeminiAPI mgr net messages 0)
          = Inl (handleSpecificErrors (projl (attempt (net messages (maxRetries mgr)))))"
    by simp
  moreover from assms Inl have "attempt (net messages (maxRetries mgr)) = Inl e"
    by simp
  ultimately show ?thesis using Inl by simp
qed

text \<open>
  C3 (as amended). Take an attempt of \<^verbatim>\<open>callGeminiAPI\<close> that receives a response whose
  \<^verbatim>\<open>ok\<close> is true, with the parsed body \<open>data\<close>.

  \<^item> When \<open>data\<close> is not \<^verbatim>\<open>null\<close> and \<^verbatim>\<open>data.candidates\<close>, \<^verbatim>\<open>data.candidates[0]\<close> or
    \<^verbatim>\<open>data.candidates[0].content\<close> is missing or falsy, the attempt fails with the error
    "Invalid response format from API".
  \<^item> When all three are there and truthy, and \<^verbatim>\<open>content.parts\<close> is there and not
    \<^verbatim>\<open>null\<close>, the attempt does not fail with that error. It gives the empty string when
    \<^verbatim>\<open>parts[0]\<close> is missing or \<^verbatim>\<open>null\<close>, or has no \<^verbatim>\<open>text\<close>, or a falsy one; it
    gives the text of \<^verbatim>\<open>parts[0]\<close> without the white space around it when that text is
    a string.
  \<^item> The result of \<^verbatim>\<open>callGeminiAPI\<close> is the text of the first attempt that gives one,
    be it the initial attempt or one of the \<open>maxRetries\<close> retries, all attempts before it
    having failed. It is the invalid-format error when the initial attempt and every
    retry fail and the last of them fails with that error.
  \<^item> \<^verbatim>\<open>generateResponse\<close>, on a manager that is initialised and has a key, is that call
    of \<^verbatim>\<open>callGeminiAPI\<close> on the prepared messages.
\<close>

theorem responseText_structure:
  "(data \<noteq> JNull
      \<and> \<not> (\<exists>cs c ct. getMember ''candidates'' data = Some cs \<and> truthy cs
                     \<and> getFirst cs = Some c \<and> truthy c
                     \<and> getMember ''content'' c = Some ct \<and> truthy ct)
      \<longrightarrow> attempt (HttpOk (Inr data)) = Inl InvalidResponseFormat)
   \<and> (getMember ''candidates'' data = Some candidates \<and> truthy candidates
      \<and> getFirst candidates = Some candidate \<and> truthy candidate
      \<and> getMember ''content'' candidate = Some content \<and> truthy content
      \<and> getMember ''parts'' content = Some ps \<and> ps \<noteq> JNull
      \<longrightarrow> attempt (HttpOk (Inr data)) \<noteq> Inl InvalidResponseFormat
        \<and> (getFirst ps = None \<longrightarrow> attempt (HttpOk (Inr data)) = Inr [])
        \<and> (\<forall>p. getFirst ps = Some p \<longrightarrow>
              (getMember ''text'' p = None \<longrightarrow> attempt (HttpOk (Inr data)) = Inr [])
            \<and> (\<forall>t. getMember ''text'' p = Some t \<and> \<not> truthy t \<longrightarrow>
                  attempt (HttpOk (Inr data)) = Inr [])
            \<and> (\<forall>s. getMember ''text'' p = Some (JStr s) \<longrightarrow>
                  attempt (HttpOk (Inr data)) = Inr (trim s))))
   \<and> (\<forall>k answer. k \<le> maxRetries mgr \<and> (\<forall>j<k. isl (attempt (net messages j)))
         \<and> net messages k = HttpOk (Inr data)
         \<and> attempt (HttpOk (Inr data)) = Inr answer \<longrightarrow>
         fst (callGeminiAPI mgr net messages 0) = Inr answer)
   \<and> ((\<forall>k \<le> maxRetries mgr. isl (attempt (net messages k)))
        \<and> net messages (maxRetries mgr) = HttpOk (Inr data)
        \<and> attempt (HttpOk (Inr data)) = Inl InvalidResponseFormat \<longrightarrow>
         fst (callGeminiAPI mgr net messages 0) = Inl InvalidResponseFormat)
   \<and> (isInitialized mgr \<and> apiKey mgr = Some key \<and> key \<noteq> [] \<longrightarrow>
         generateResponse mgr ctx net userMessage imageData
           = callGeminiAPI mgr net (prepareMessages ctx userMessage imageData) 0)"
proof (intro conjI impI allI)
  assume "data \<noteq> JNull
      \<and> \<not> (\<exists>cs c ct. getMember ''candidates'' data = Some cs \<and> truthy cs
                     \<and> getFirst cs = Some c \<and> truthy c
                     \<and> getMember ''content'' c = Some ct \<and> truthy ct)"
  then have "responseText data = Inl InvalidResponseFormat"
    using responseText_without_content [of data] by blast
  then show "attempt (HttpOk (Inr data)) = Inl InvalidResponseFormat"
    by simp
next
  assume chain: "getMember ''candidates'' data = Some candidates \<and> truthy candidates
      \<and> getFirst candidates = Some candidate \<and> truthy candidate
      \<and> getMember ''content'' candidate = Some content \<and> truthy content
      \<and> getMember ''parts'' content = Some ps \<and> ps \<noteq> JNull"
  then have "responseText data = firstPartText content"
    using responseText_with_content [of data candidates candidate content] by blast
  then have first: "attempt (HttpOk (Inr data)) = firstPartText content"
    by simp
  from first show "attempt (HttpOk (Inr data)) \<noteq> Inl InvalidResponseFormat"
    by (simp add: firstPartText_not_InvalidResponseFormat)
  show "attempt (HttpOk (Inr data)) = Inr []" if "getFirst ps = None"
    unfolding first using chain that by (simp add: firstPartText_def)
  show "attempt (HttpOk (Inr data)) = Inr []" if "getFirst ps = Some p" "getMember ''text'' p = None"
    for p
    unfolding first using chain that by (simp add: firstPartText_def)
  show "attempt (HttpOk (Inr data)) = Inr []"
    if "getFirst ps = Some p" "getMember ''text'' p = Some t \<and> \<not> truthy t" for p t
  proof -
    from that(2) have "p \<noteq> JNull" by auto
    with chain that show ?thesis
      unfolding first by (simp add: firstPartText_def)
  qed
  show "attempt (HttpOk (Inr data)) = Inr (trim s)"
    if "getFirst ps = Some p" "getMember ''text'' p = Some (JStr s)" for p s
  proof -
    from that(2) have "p \<noteq> JNull" by auto
    with chain that show ?thesis
      unfolding first by (simp add: firstPartText_def)
  qed
next
  fix k answer
  assume run: "k \<le> maxRetries mgr \<and> (\<forall>j<k. isl (attempt (net messages j)))
         \<and> net messages k = HttpOk (Inr data)
         \<and> attempt (HttpOk (Inr data)) = Inr answer"
  then have "attempt (net messages k) = Inr answer"
    by simp
  moreover from run have "\<forall>j. 0 \<le> j \<and> j < k \<longrightarrow> isl (attempt (net messages j))"
    by simp
  ultimately show "fst (callGeminiAPI mgr net messages 0) = Inr answer"
    using run callGeminiAPI_later_answer [of 0 k mgr net messages answer] by simp
next
  assume fail: "(\<forall>k \<le> maxRetries mgr. isl (attempt (net messages k)))
        \<and> net messages (maxRetries mgr) = HttpOk (Inr data)
        \<and> attempt (HttpOk (Inr data)) = Inl InvalidResponseFormat"
  then have "\<forall>k. 0 \<le> k \<and> k \<le> maxRetries mgr \<longrightarrow> isl (attempt (net messages k))"
    by simp
  from callGeminiAPI_all_fail [of 0 mgr net messages] this
  have "fst (callGeminiAPI mgr net messages 0)
          = Inl (handleSpecificErrors (projl (attempt (net messages (maxRetries mgr)))))"
    by simp
  with fail show "fst (callGeminiAPI mgr net messages 0) = Inl InvalidResponseFormat"
    by (simp add: handleSpecificErrors_InvalidResponseFormat)
next
  assume "isInitialized mgr \<and> apiKey mgr = Some key \<and> key \<noteq> []"
  then show "generateResponse mgr ctx net userMessage imageData
           = callGeminiAPI mgr net (prepareMessages ctx userMessage imageData) 0"
    by (simp add: generateResponse_def)
qed

lemma saltNote_trim: "trim saltNote = ''Add the salt.''"
  by code_simp

theorem responseText_structure_witness:
  "attempt (HttpOk (Inr blockedBody)) = Inl InvalidResponseFormat
   \<and> fst (callGeminiAPI chef (answers blockedBody) [] 0) = Inl InvalidResponseFormat
   \<and> attempt (HttpOk (Inr (textBody saltNote))) = Inr ''Add the salt.''
   \<and> fst (callGeminiAPI chef (answersAfter 2 (textBody saltNote)) [] 0) = Inr ''Add the salt.''
   \<and> attempt (HttpOk (Inr bodyWithNoPart)) = Inr []
   \<and> generateResponse chef kitchen (answers (textBody saltNote)) ''namaste'' None
       = callGeminiAPI chef (answers (textBody saltNote)) (prepareMessages kitchen ''namaste'' None) 0"
proof -
  let ?part = "JObj [(''text'', JStr saltNote)]"
  let ?content = "JObj [(''parts'', JArr [?part]), (''role'', JStr ''model'')]"
  let ?empty = "JObj [(''parts'', JArr []), (''role'', JStr ''model'')]"
  note blocked = responseText_structure
    [where data = blockedBody and mgr = chef and net = "answers blockedBody" and messages = "[]"]
  note salted = responseText_structure
    [where data = "textBody saltNote" and candidates = "JArr [JObj [(''content'', ?content)]]"
       and candidate = "JObj [(''content'', ?content)]" and content = ?content
       and ps = "JArr [?part]" and mgr = chef and net = "answersAfter 2 (textBody saltNote)"
       and messages = "[]" and key = "''key''" and ctx = kitchen
       and userMessage = "''namaste''" and imageData = None]
  note noPart = responseText_structure
    [where data = bodyWithNoPart and candidates = "JArr [JObj [(''content'', ?empty)]]"
       and candidate = "JObj [(''content'', ?empty)]" and content = ?empty and ps = "JArr []"]
  note greeted = responseText_structure
    [where mgr = chef and key = "''key''" and ctx = kitchen
       and net = "answers (textBody saltNote)" and userMessage = "''namaste''"
       and imageData = None]
  from blocked have b1: "attempt (HttpOk (Inr blockedBody)) = Inl InvalidResponseFormat"
    by (simp add: blockedBody_def)
  have "\<forall>k \<le> maxRetries chef. isl (attempt (answers blockedBody [] k))"
    using b1 by (simp add: answers_def)
  moreover have "answers blockedBody [] (maxRetries chef) = HttpOk (Inr blockedBody)"
    by (simp add: answers_def)
  ultimately have b2: "fst (callGeminiAPI chef (answers blockedBody) [] 0) = Inl InvalidResponseFormat"
    using blocked b1 by blast
  from salted have "attempt (HttpOk (Inr (textBody saltNote))) = Inr (trim saltNote)"
    by (simp add: textBody_def)
  then have s1: "attempt (HttpOk (Inr (textBody saltNote))) = Inr ''Add the salt.''"
    by (simp only: saltNote_trim)
  have "(2::nat) \<le> maxRetries chef"
    by (simp add: chef_def)
  moreover have "\<forall>j<2. isl (attempt (answersAfter 2 (textBody saltNote) [] j))"
    by (simp add: answersAfter_def)
  moreover have "answersAfter 2 (textBody saltNote) [] 2 = HttpOk (Inr (textBody saltNote))"
    by (simp add: answersAfter_def)
  ultimately have s2: "fst (callGeminiAPI chef (answersAfter 2 (textBody saltNote)) [] 0)
                         = Inr ''Add the salt.''"
    using salted s1 by blast
  from noPart have n1: "attempt (HttpOk (Inr bodyWithNoPart)) = Inr []"
    by (simp add: bodyWithNoPart_def)
  from greeted have g1:
    "generateResponse chef kitchen (answers (textBody saltNote)) ''namaste'' None
       = callGeminiAPI chef (answers (textBody saltNote)) (prepareMessages kitchen ''namaste'' None) 0"
    by (simp add: chef_def)
  from b1 b2 s1 s2 n1 g1 show ?thesis
    by blast
qed

text \<open>
  The claim as stated fails on two bodies. A content whose array of parts is empty has no
  first part, and the call returns the empty string instead of failing. A content with
  no parts at all makes the read of \<^verbatim>\<open>parts[0]\<close> throw a \<^verbatim>\<open>TypeError\<close>, which is retried
  and then reaches the caller: not the invalid-format error.
\<close>

theorem responseText_parts_counterexample:
  "responseText bodyWithNoPart = Inr []
   \<and> callGeminiAPI chef (answers bodyWithNoPart) [] 0 = (Inr [], [Fetch 0])
   \<and> responseText bodyWithoutParts = Inl (TypeError ''content.parts[0]'')
   \<and> fst (callGeminiAPI chef (answers bodyWithoutParts) [] 0) = Inl (TypeError ''content.parts[0]'')
   \<and> TypeError ''content.parts[0]'' \<noteq> InvalidResponseFormat"
proof -
  have none: "responseText bodyWithNoPart = Inr []"
    by (simp add: bodyWithNoPart_def responseText_def firstPartText_def)
  then have "attempt (answers bodyWithNoPart [] 0) = Inr []"
    by (simp add: answers_def)
  from callGeminiAPI_first_answer [of "answers bodyWithNoPart" "[]" "[]" chef, OF this]
  have call1: "callGeminiAPI chef (answers bodyWithNoPart) [] 0 = (Inr [], [Fetch 0])" .
  have without: "responseText bodyWithoutParts = Inl (TypeError ''content.parts[0]'')"
    by (simp add: bodyWithoutParts_def responseText_def firstPartText_def)
  have "\<forall>k \<le> maxRetries chef. answers bodyWithoutParts [] k = HttpOk (Inr bodyWithoutParts)"
    by (simp add: answers_def)
  from callGeminiAPI_same_answer [of chef "answers bodyWithoutParts" "[]" bodyWithoutParts, OF this]
    without
  have call2: "fst (callGeminiAPI chef (answers bodyWithoutParts) [] 0)
                 = Inl (TypeError ''content.parts[0]'')"
    by (simp add: handleSpecificErrors_TypeError_parts)
  from none call1 without call2 TypeError_not_InvalidResponseFormat show ?thesis by simp
qed

section \<open>AI client: properties of the recipe extraction\<close>

lemma set_dropWhile_append:
  assumes "ys \<noteq> []" "\<not> P (hd ys)"
  shows "set ys \<subseteq> set (dropWhile P (xs @ ys))"
  using assms by (induction xs) (auto simp: neq_Nil_conv)

lemma jsonMatch_None_iff:
  "jsonMatch s = None \<longleftrightarrow> \<not> (\<exists>a b c. s = a @ CHR ''{'' # b @ CHR ''}'' # c)"
proof -
  let ?P = "\<lambda>c. c \<noteq> CHR ''{''"
  have none: "jsonMatch s = None \<longleftrightarrow> CHR ''}'' \<notin> set (dropWhile ?P s)"
    by (simp add: jsonMatch_def Let_def)
  have "CHR ''}'' \<in> set (dropWhile ?P s) \<longleftrightarrow> (\<exists>a b c. s = a @ CHR ''{'' # b @ CHR ''}'' # c)"
  proof
    assume inrest: "CHR ''}'' \<in> set (dropWhile ?P s)"
    then have "dropWhile ?P s \<noteq> []" by (metis empty_iff list.set(1))
    from hd_dropWhile [OF this] have "hd (dropWhile ?P s) = CHR ''{''" by simp
    with \<open>dropWhile ?P s \<noteq> []\<close> obtain r where rest: "dropWhile ?P s = CHR ''{'' # r"
      by (cases "dropWhile ?P s") simp_all
    with inrest have "CHR ''}'' \<in> set r" by simp
    then obtain b c where "r = b @ CHR ''}'' # c" by (auto dest: split_list)
    with rest have "s = takeWhile ?P s @ CHR ''{'' # b @ CHR ''}'' # c"
      using takeWhile_dropWhile_id [of ?P s] by simp
    then show "\<exists>a b c. s = a @ CHR ''{'' # b @ CHR ''}'' # c" by blast
  next
    assume "\<exists>a b c. s = a @ CHR ''{'' # b @ CHR ''}'' # c"
    then obtain a b c where s: "s = a @ CHR ''{'' # b @ CHR ''}'' # c" by blast
    have "set (CHR ''{'' # b @ CHR ''}'' # c) \<subseteq> set (dropWhile ?P (a @ CHR ''{'' # b @ CHR ''}'' # c))"
      by (rule set_dropWhile_append) simp_all
    with s show "CHR ''}'' \<in> set (dropWhile ?P s)" by auto
  qed
  with none show ?thesis by simp
qed

text \<open>
  C2 (as amended). \<^verbatim>\<open>extractRecipe\<close> first looks in the answer of the model for a text
  from an opening brace to a closing brace and, when there is one, returns what
  \<^verbatim>\<open>JSON.parse\<close> makes of it. The heuristic line classifier runs exactly when the request
  succeeded and the answer has no opening brace followed by a closing brace; its result
  is returned as it is. The default recipe is returned exactly when the request fails or
  \<^verbatim>\<open>JSON.parse\<close> rejects the text between the braces, and in neither case does the
  heuristic run.
\<close>

theorem extractRecipe_stages:
  "(\<forall>response matched recipeData.
       fst (generateResponse mgr ctx net (extractionPrompt userMessage) None) = Inr response
       \<and> jsonMatch response = Some matched \<and> JSON_parse matched = Some recipeData \<longrightarrow>
       extractRecipe mgr ctx net userMessage = (recipeData, [StructuredParse]))
   \<and> (\<forall>response.
       fst (generateResponse mgr ctx net (extractionPrompt userMessage) None) = Inr response
       \<and> jsonMatch response = None \<longrightarrow>
       extractRecipe mgr ctx net userMessage
         = (recipeObject (parseRecipeFallback response), [HeuristicParse]))
   \<and> (\<forall>response matched.
       fst (generateResponse mgr ctx net (extractionPrompt userMessage) None) = Inr response
       \<and> jsonMatch response = Some matched \<and> JSON_parse matched = None \<longrightarrow>
       extractRecipe mgr ctx net userMessage
         = (recipeObject getDefaultRecipe, [StructuredParse, DefaultRecipe]))
   \<and> (isl (fst (generateResponse mgr ctx net (extractionPrompt userMessage) None)) \<longrightarrow>
       extractRecipe mgr ctx net userMessage = (recipeObject getDefaultRecipe, [DefaultRecipe]))
   \<and> (HeuristicParse \<in> set (snd (extractRecipe mgr ctx net userMessage)) \<longleftrightarrow>
       (\<exists>response.
          fst (generateResponse mgr ctx net (extractionPrompt userMessage) None) = Inr response
          \<and> \<not> (\<exists>a b c. response = a @ CHR ''{'' # b @ CHR ''}'' # c)))
   \<and> (DefaultRecipe \<in> set (snd (extractRecipe mgr ctx net userMessage)) \<longleftrightarrow>
       isl (fst (generateResponse mgr ctx net (extractionPrompt userMessage) None))
       \<or> (\<exists>response matched.
            fst (generateResponse mgr ctx net (extractionPrompt userMessage) None) = Inr response
            \<and> jsonMatch response = Some matched \<and> JSON_parse matched = None))
   \<and> \<not> (HeuristicParse \<in> set (snd (extractRecipe mgr ctx net userMessage))
        \<and> DefaultRecipe \<in> set (snd (extractRecipe mgr ctx net userMessage)))"
proof -
  define reply where "reply = fst (generateResponse mgr ctx net (extractionPrompt userMessage) None)"
  define result where "result = extractRecipe mgr ctx net userMessage"
  have result: "result =
     (case reply of
        Inl error \<Rightarrow> (recipeObject getDefaultRecipe, [DefaultRecipe])
      | Inr response \<Rightarrow>
          (case jsonMatch response of
             Some matched \<Rightarrow>
               (case JSON_parse matched of
                  Some recipeData \<Rightarrow> (recipeData, [StructuredParse])
                | None \<Rightarrow> (recipeObject getDefaultRecipe, [StructuredParse, DefaultRecipe]))
           | None \<Rightarrow> (recipeObject (parseRecipeFallback response), [HeuristicParse])))"
    by (simp add: result_def reply_def extractRecipe_def)
  have a: "result = (recipeData, [StructuredParse])"
    if "reply = Inr response" "jsonMatch response = Some matched" "JSON_parse matched = Some recipeData"
    for response matched recipeData
    using that by (simp add: result)
  have b: "result = (recipeObject (parseRecipeFallback response), [HeuristicParse])"
    if "reply = Inr response" "jsonMatch response = None" for response
    using that by (simp add: result)
  have c: "result = (recipeObject getDefaultRecipe, [StructuredParse, DefaultRecipe])"
    if "reply = Inr response" "jsonMatch response = Some matched" "JSON_parse matched = None"
    for response matched
    using that by (simp add: result)
  have d: "result = (recipeObject getDefaultRecipe, [DefaultRecipe])" if "isl reply"
    using that by (cases reply) (simp_all add: result)
  have e: "HeuristicParse \<in> set (snd result) \<longleftrightarrow>
             (\<exists>response. reply = Inr response \<and> jsonMatch response = None)"
    by (cases reply) (auto simp: result split: option.splits)
  have f: "DefaultRecipe \<in> set (snd result) \<longleftrightarrow>
             isl reply \<or> (\<exists>response matched. reply = Inr response
                            \<and> jsonMatch response = Some matched \<and> JSON_parse matched = None)"
    by (cases reply) (auto simp: result split: option.splits)
  have g: "\<not> (HeuristicParse \<in> set (snd result) \<and> DefaultRecipe \<in> set (snd result))"
    by (cases reply) (auto simp: result split: option.splits)
  from a b c d e f g show ?thesis
    unfolding reply_def result_def jsonMatch_None_iff by blast
qed

lemma generateResponse_answers:
  "generateResponse chef kitchen (answers (textBody reply)) prompt None
     = (Inr (trim reply), [Fetch 0])"
proof -
  have "responseText (textBody reply) = Inr (trim reply)"
    by (simp add: textBody_def responseText_def firstPartText_def)
  then have "attempt (answers (textBody reply) (prepareMessages kitchen prompt None) 0)
               = Inr (trim reply)"
    by (simp add: answers_def)
  from callGeminiAPI_first_answer
         [of "answers (textBody reply)" "prepareMessages kitchen prompt None" "trim reply" chef,
          OF this]
  show ?thesis by (simp add: generateResponse_def chef_def)
qed

lemma generateResponse_serverDown:
  "isl (fst (generateResponse chef kitchen serverDown prompt None))"
proof -
  have "\<forall>k. 0 \<le> k \<and> k \<le> maxRetries chef \<longrightarrow>
          isl (attempt (serverDown (prepareMessages kitchen prompt None) k))"
    by (simp add: serverDown_def)
  from callGeminiAPI_all_fail [of 0 chef serverDown "prepareMessages kitchen prompt None"] this
  show ?thesis by (simp add: generateResponse_def chef_def)
qed

lemma riceNote_facts:
  "trim riceNote = riceNote" "jsonMatch riceNote = Some ''{1 cup}''" "JSON_parse ''{1 cup}'' = None"
  "ingredients (parseRecipeFallback riceNote) = [''{1 cup} rice'']"
  "steps (parseRecipeFallback riceNote) = [''Boil the rice'']"
  by code_simp+

lemma khichdiAnswer_facts:
  "trim khichdiAnswer = khichdiAnswer"
  "jsonMatch khichdiAnswer = Some (drop 20 khichdiAnswer)"
  "JSON_parse (drop 20 khichdiAnswer)
     = Some (JObj [(''name'', JStr ''Khichdi''),
                   (''ingredients'', JArr [JStr ''1 cup rice'', JStr ''1 cup dal'']),
                   (''steps'', JArr [JStr ''Boil together'']),
                   (''estimatedTime'', JStr ''20'')])"
  by code_simp+

lemma jeeraRiceAnswer_facts:
  "trim jeeraRiceAnswer = jeeraRiceAnswer" "jsonMatch jeeraRiceAnswer = None"
  "parseRecipeFallback jeeraRiceAnswer
     = \<lparr>name = ''Jeera Rice'', ingredients = [''1 cup rice''], steps = [''Boil the rice''],
        estimatedTime = ''20''\<rparr>"
  by code_simp+

theorem extractRecipe_stages_witness:
  "extractRecipe chef kitchen (answers (textBody khichdiAnswer)) ''khichdi''
     = (JObj [(''name'', JStr ''Khichdi''),
              (''ingredients'', JArr [JStr ''1 cup rice'', JStr ''1 cup dal'']),
              (''steps'', JArr [JStr ''Boil together'']),
              (''estimatedTime'', JStr ''20'')], [StructuredParse])
   \<and> extractRecipe chef kitchen (answers (textBody jeeraRiceAnswer)) ''jeera rice''
     = (recipeObject \<lparr>name = ''Jeera Rice'', ingredients = [''1 cup rice''],
                      steps = [''Boil the rice''], estimatedTime = ''20''\<rparr>, [HeuristicParse])
   \<and> extractRecipe chef kitchen serverDown ''jeera rice''
     = (recipeObject getDefaultRecipe, [DefaultRecipe])"
proof -
  from extractRecipe_stages [of chef kitchen "answers (textBody khichdiAnswer)" "''khichdi''"]
  have a: "extractRecipe chef kitchen (answers (textBody khichdiAnswer)) ''khichdi''
     = (JObj [(''name'', JStr ''Khichdi''),
              (''ingredients'', JArr [JStr ''1 cup rice'', JStr ''1 cup dal'']),
              (''steps'', JArr [JStr ''Boil together'']),
              (''estimatedTime'', JStr ''20'')], [StructuredParse])"
    by (simp add: generateResponse_answers khichdiAnswer_facts)
  from extractRecipe_stages [of chef kitchen "answers (textBody jeeraRiceAnswer)" "''jeera rice''"]
  have b: "extractRecipe chef kitchen (answers (textBody jeeraRiceAnswer)) ''jeera rice''
     = (recipeObject \<lparr>name = ''Jeera Rice'', ingredients = [''1 cup rice''],
                      steps = [''Boil the rice''], estimatedTime = ''20''\<rparr>, [HeuristicParse])"
    by (simp add: generateResponse_answers jeeraRiceAnswer_facts)
  from extractRecipe_stages [of chef kitchen serverDown "''jeera rice''"]
  have c: "extractRecipe chef kitchen serverDown ''jeera rice''
     = (recipeObject getDefaultRecipe, [DefaultRecipe])"
    by (simp add: generateResponse_serverDown)
  from a b c show ?thesis by simp
qed

text \<open>
  The claim as stated fails on an answer in plain lines with braces around a quantity:
  the text between the braces is no JSON, so the default recipe is returned, although
  the heuristic, which is not run, finds an ingredient and a step in the answer.
\<close>

theorem extractRecipe_default_counterexample:
  "extractRecipe chef kitchen (answers (textBody riceNote)) ''rice''
     = (recipeObject getDefaultRecipe, [StructuredParse, DefaultRecipe])
   \<and> ingredients (parseRecipeFallback riceNote) = [''{1 cup} rice'']
   \<and> steps (parseRecipeFallback riceNote) = [''Boil the rice'']"
  by (simp add: extractRecipe_def generateResponse_answers riceNote_facts)

section \<open>Session orchestrator: properties\<close>

lemma includes_str_iff: "includes_str s sub \<longleftrightarrow> (\<exists>a c. s = a @ sub @ c)"
proof (induction s)
  case Nil
  then show ?case by auto
next
  case (Cons x xs)
  show ?case
  proof
    assume "includes_str (x # xs) sub"
    then consider "prefix sub (x # xs)" | "includes_str xs sub" by auto
    then show "\<exists>a c. x # xs = a @ sub @ c"
    proof cases
      case 1
      then obtain c where "x # xs = sub @ c" by (auto simp: prefix_def)
      then have "x # xs = [] @ sub @ c" by simp
      then show ?thesis by blast
    next
      case 2
      with Cons.IH obtain a c where "xs = a @ sub @ c" by blast
      then have "x # xs = (x # a) @ sub @ c" by simp
      then show ?thesis by blast
    qed
  next
    assume "\<exists>a c. x # xs = a @ sub @ c"
    then obtain a c where eq: "x # xs = a @ sub @ c" by blast
    show "includes_str (x # xs) sub"
    proof (cases a)
      case Nil
      with eq have "prefix sub (x # xs)" by (simp add: prefix_def)
      then show ?thesis by simp
    next
      case (Cons y ys)
      with eq have "xs = ys @ sub @ c" by simp
      with Cons.IH have "includes_str xs sub" by blast
      then show ?thesis by simp
    qed
  qed
qed

lemma includes_str_toLowerCase:
  assumes "includes_str s sub" "toLowerCase sub = sub"
  shows "includes_str (toLowerCase s) sub"
proof -
  from assms(1) obtain a c where "s = a @ sub @ c" by (auto simp: includes_str_iff)
  then have "toLowerCase s = toLowerCase a @ sub @ toLowerCase c"
    using assms(2) by (simp add: toLowerCase_def)
  then show ?thesis by (auto simp: includes_str_iff)
qed

lemma includes_str_length:
  assumes "includes_str s sub"
  shows "length sub \<le> length s"
  using assms by (auto simp: includes_str_iff)

lemma appState_speakAIResponse [simp]: "appState (speakAIResponse said s) = appState s"
  by (simp add: speakAIResponse_def split: option.splits)

lemma aiRequests_speakAIResponse [simp]: "aiRequests (speakAIResponse said s) = aiRequests s"
  by (simp add: speakAIResponse_def split: option.splits)

lemma removeDelimited_prefix:
  assumes "opn \<notin> set p"
  shows "removeDelimited opn cls (p @ s) = p @ removeDelimited opn cls s"
  using assms by (induction p) auto

lemma removeDelimited_none:
  assumes "opn \<notin> set s"
  shows "removeDelimited opn cls s = s"
  using removeDelimited_prefix [OF assms, of cls "[]"] by simp

text \<open>The text that the command "ready" hands to the speech facade is never empty.\<close>

lemma cleanForSpeech_ready:
  "cleanForSpeech (''Accha! Chaliye shuru karte hain. '' @ stepText) \<noteq> []"
proof -
  let ?p = "''Accha! Chaliye shuru karte hain. ''"
  have "removeDelimited (CHR ''['') (CHR '']'') (?p @ stepText)
          = ?p @ removeDelimited (CHR ''['') (CHR '']'') stepText"
    by (rule removeDelimited_prefix) simp
  moreover have "removeDelimited (CHR ''('') (CHR '')'')
                   (?p @ removeDelimited (CHR ''['') (CHR '']'') stepText)
          = ?p @ removeDelimited (CHR ''('') (CHR '')'')
                   (removeDelimited (CHR ''['') (CHR '']'') stepText)"
    by (rule removeDelimited_prefix) simp
  ultimately obtain rest where
    "filter (\<lambda>c. c \<noteq> CHR ''*'')
       (removeDelimited (CHR ''('') (CHR '')'')
          (removeDelimited (CHR ''['') (CHR '']'') (?p @ stepText)))
     = CHR ''A'' # rest"
    by simp
  then have cleaned: "cleanForSpeech (?p @ stepText) = trim (CHR ''A'' # rest)"
    by (simp only: cleanForSpeech_def)
  have "trim (CHR ''A'' # rest) \<noteq> []"
    by (rule trim_not_empty) (simp add: whiteSpace_def)
  then show ?thesis
    by (simp only: cleaned not_False_eq_True)
qed

lemma cleanForSpeech_plain:
  assumes "CHR ''['' \<notin> set s" "CHR ''('' \<notin> set s" "CHR ''*'' \<notin> set s"
  shows "cleanForSpeech s = trim s"
proof -
  have "filter (\<lambda>c. c \<noteq> CHR ''*'') s = s"
    using assms(3) by (induction s) auto
  with assms(1,2) show ?thesis
    by (simp add: cleanForSpeech_def removeDelimited_none)
qed

lemma handleSpecialCommands_ready:
  assumes "includes_str message ''ready''"
  shows "handleSpecialCommands env message s = (True, handler env Ready s)"
  using assms by (simp add: handleSpecialCommands_def commands_def)

text \<open>
  C9. For every message that contains "ready", \<^verbatim>\<open>processUserMessage\<close> returns from the
  command table: the flag \<open>waitingForConfirmation\<close> is cleared, no request to the AI client
  is added, and the text "Accha! Chaliye shuru karte hain." followed by the text of the
  current step goes through \<^verbatim>\<open>speakAIResponse\<close>. When the speech facade is there with AI
  speech enabled, the text handed to \<^verbatim>\<open>queueSpeech\<close> is not empty, and it is the trimmed
  text itself when the step text has no bracket, parenthesis or asterisk; an idle facade
  with speech synthesis speaks it at once. The step index is not moved.
\<close>

theorem processUserMessage_ready:
  assumes "includes_str message ''ready''"
  shows "processUserMessage env message s
           = speakAIResponse
               (''Accha! Chaliye shuru karte hain. '' @ getCurrentStepText (appState s))
               (s\<lparr>appState := (appState s)\<lparr>waitingForConfirmation := False\<rparr>\<rparr>)
       \<and> \<not> waitingForConfirmation (appState (processUserMessage env message s))
       \<and> aiRequests (processUserMessage env message s) = aiRequests s
       \<and> currentStep (appState (processUserMessage env message s)) = currentStep (appState s)
       \<and> (\<forall>sm. speechManager s = Some sm \<and> aiSpeechEnabled sm \<longrightarrow>
             speechManager (processUserMessage env message s)
               = Some (queueSpeech
                         (cleanForSpeech
                            (''Accha! Chaliye shuru karte hain. '' @ getCurrentStepText (appState s)))
                         sm)
           \<and> cleanForSpeech
                 (''Accha! Chaliye shuru karte hain. '' @ getCurrentStepText (appState s)) \<noteq> []
           \<and> (CHR ''['' \<notin> set (getCurrentStepText (appState s))
                \<and> CHR ''('' \<notin> set (getCurrentStepText (appState s))
                \<and> CHR ''*'' \<notin> set (getCurrentStepText (appState s)) \<longrightarrow>
                cleanForSpeech
                  (''Accha! Chaliye shuru karte hain. '' @ getCurrentStepText (appState s))
                = trim (''Accha! Chaliye shuru karte hain. '' @ getCurrentStepText (appState s)))
           \<and> (synthesis sm \<and> \<not> isSpeaking sm \<longrightarrow>
                synthesisCalls (the (speechManager (processUserMessage env message s)))
                = synthesisCalls sm
                    @ [Speak \<lparr>utteranceText =
                                cleanForSpeech
                                  (''Accha! Chaliye shuru karte hain. ''
                                     @ getCurrentStepText (appState s)),
                              callback = None\<rparr>]))"
proof -
  let ?said = "''Accha! Chaliye shuru karte hain. '' @ getCurrentStepText (appState s)"
  let ?s1 = "s\<lparr>appState := (appState s)\<lparr>waitingForConfirmation := False\<rparr>\<rparr>"
  have lower: "includes_str (toLowerCase message) ''ready''"
    using assms by (rule includes_str_toLowerCase) (simp add: toLowerCase_def lowerChar_def)
  have "5 \<le> length message"
    using includes_str_length [OF assms] by simp
  then have "\<not> length message < 2" by simp
  then have "processUserMessage env message s = handler env Ready s"
    using handleSpecialCommands_ready [OF lower, of env s]
    by (simp add: processUserMessage_def)
  moreover have "getCurrentStepText ((appState s)\<lparr>waitingForConfirmation := False\<rparr>)
                   = getCurrentStepText (appState s)"
    by (simp add: getCurrentStepText_def totalSteps_def)
  ultimately have run: "processUserMessage env message s = speakAIResponse ?said ?s1"
    by simp
  have flag: "\<not> waitingForConfirmation (appState (processUserMessage env message s))"
    and reqs: "aiRequests (processUserMessage env message s) = aiRequests s"
    and step: "currentStep (appState (processUserMessage env message s)) = currentStep (appState s)"
    by (simp_all add: run)
  have nonempty: "cleanForSpeech ?said \<noteq> []"
    by (rule cleanForSpeech_ready)
  have spoken: "speechManager (processUserMessage env message s)
                  = Some (queueSpeech (cleanForSpeech ?said) sm)"
    if "speechManager s = Some sm" "aiSpeechEnabled sm" for sm
    using that nonempty by (simp add: run speakAIResponse_def)
  have plain: "cleanForSpeech ?said = trim ?said"
    if "CHR ''['' \<notin> set (getCurrentStepText (appState s))
        \<and> CHR ''('' \<notin> set (getCurrentStepText (appState s))
        \<and> CHR ''*'' \<notin> set (getCurrentStepText (appState s))"
    using that by (intro cleanForSpeech_plain) simp_all
  have atonce: "synthesisCalls (the (speechManager (processUserMessage env message s)))
                  = synthesisCalls sm
                      @ [Speak \<lparr>utteranceText = cleanForSpeech ?said, callback = None\<rparr>]"
    if "speechManager s = Some sm" "aiSpeechEnabled sm" "synthesis sm" "\<not> isSpeaking sm" for sm
    using that spoken [OF that(1,2)] speak_not_speaking [OF that(3,2,4)]
    by (simp add: queueSpeech_def)
  from run flag reqs step spoken nonempty plain atonce show ?thesis by blast
qed

theorem processUserMessage_ready_witness:
  "includes_str ''I am ready now'' ''ready''
   \<and> \<not> waitingForConfirmation (appState (processUserMessage quietSurroundings ''I am ready now'' pulaoSession))
   \<and> aiRequests (processUserMessage quietSurroundings ''I am ready now'' pulaoSession) = []
   \<and> speechManager (processUserMessage quietSurroundings ''I am ready now'' pulaoSession)
       = Some (idleSpeech\<lparr>synthesisCalls :=
                 [Speak \<lparr>utteranceText =
                            ''Accha! Chaliye shuru karte hain. Wash rice and soak for 15 minutes'',
                          callback = None\<rparr>]\<rparr>)"
proof -
  have ready: "includes_str ''I am ready now'' ''ready''" by simp
  have stepText: "getCurrentStepText (appState pulaoSession) = ''Wash rice and soak for 15 minutes''"
    by (simp add: getCurrentStepText_def totalSteps_def pulaoSession_def getDefaultRecipe_def)
  have said: "cleanForSpeech (''Accha! Chaliye shuru karte hain. Wash rice and soak for 15 minutes'')
                = ''Accha! Chaliye shuru karte hain. Wash rice and soak for 15 minutes''"
    by code_simp
  have sm: "speechManager pulaoSession = Some idleSpeech" "aiSpeechEnabled idleSpeech"
    "aiRequests pulaoSession = []"
    by (simp_all add: pulaoSession_def idleSpeech_def)
  have q: "queueSpeech ''Accha! Chaliye shuru karte hain. Wash rice and soak for 15 minutes'' idleSpeech
             = idleSpeech\<lparr>synthesisCalls :=
                 [Speak \<lparr>utteranceText =
                            ''Accha! Chaliye shuru karte hain. Wash rice and soak for 15 minutes'',
                          callback = None\<rparr>]\<rparr>"
    by (simp add: queueSpeech_def speak_def stopSpeaking_def idleSpeech_def)
  note r = processUserMessage_ready [OF ready, of quietSurroundings pulaoSession]
  from r have flag: "\<not> waitingForConfirmation
      (appState (processUserMessage quietSurroundings ''I am ready now'' pulaoSession))"
    by blast
  from r sm(3) have reqs: "aiRequests (processUserMessage quietSurroundings ''I am ready now'' pulaoSession) = []"
    by simp
  from r have "\<forall>sm. speechManager pulaoSession = Some sm \<and> aiSpeechEnabled sm \<longrightarrow>
      speechManager (processUserMessage quietSurroundings ''I am ready now'' pulaoSession)
        = Some (queueSpeech
                  (cleanForSpeech
                     (''Accha! Chaliye shuru karte hain. '' @ getCurrentStepText (appState pulaoSession)))
                  sm)"
    by blast
  with sm(1,2) have "speechManager (processUserMessage quietSurroundings ''I am ready now'' pulaoSession)
        = Some (queueSpeech
                  (cleanForSpeech
                     (''Accha! Chaliye shuru karte hain. '' @ getCurrentStepText (appState pulaoSession)))
                  idleSpeech)"
    by blast
  with stepText said q have spoken:
    "speechManager (processUserMessage quietSurroundings ''I am ready now'' pulaoSession)
       = Some (idleSpeech\<lparr>synthesisCalls :=
                 [Speak \<lparr>utteranceText =
                            ''Accha! Chaliye shuru karte hain. Wash rice and soak for 15 minutes'',
                          callback = None\<rparr>]\<rparr>)"
    by simp
  from ready flag reqs spoken show ?thesis by blast
qed

lemma nextStep_index:
  "currentStep (appState (nextStep s))
     = (if currentStep (appState s) + 1 < totalSteps (appState s)
        then currentStep (appState s) + 1 else currentStep (appState s))"
  "recipeSteps (appState (nextStep s)) = recipeSteps (appState s)"
  by (simp_all add: nextStep_def AppState_nextStep_def)

lemma prevStep_index:
  "currentStep (appState (prevStep s))
     = (if 0 < currentStep (appState s)
        then currentStep (appState s) - 1 else currentStep (appState s))"
  "recipeSteps (appState (prevStep s)) = recipeSteps (appState s)"
  by (simp_all add: prevStep_def AppState_prevStep_def)

lemma processUserMessage_next: "processUserMessage env ''next'' s = nextStep s"
  by (simp add: processUserMessage_def handleSpecialCommands_def commands_def
      toLowerCase_def lowerChar_def)

lemma processUserMessage_previous: "processUserMessage env ''previous'' s = prevStep s"
  by (simp add: processUserMessage_def handleSpecialCommands_def commands_def
      toLowerCase_def lowerChar_def)

lemma stepInRange_command:
  assumes "stepInRange (appState s)" "m = ''next'' \<or> m = ''previous''"
  shows "stepInRange (appState (processUserMessage env m s))
       \<and> recipeSteps (appState (processUserMessage env m s)) = recipeSteps (appState s)"
  using assms
  by (auto simp: processUserMessage_next processUserMessage_previous nextStep_index
      prevStep_index stepInRange_def totalSteps_def)

lemma stepInRange_processAll:
  assumes "stepInRange (appState s)" "\<forall>m \<in> set messages. m = ''next'' \<or> m = ''previous''"
  shows "stepInRange (appState (processAll env messages s))
       \<and> recipeSteps (appState (processAll env messages s)) = recipeSteps (appState s)"
  using assms
proof (induction messages arbitrary: s)
  case Nil
  then show ?case by (simp add: processAll_def)
next
  case (Cons m ms)
  from Cons.prems have m: "m = ''next'' \<or> m = ''previous''" by simp
  from stepInRange_command [OF Cons.prems(1) m, of env]
  have step: "stepInRange (appState (processUserMessage env m s))"
    and same: "recipeSteps (appState (processUserMessage env m s)) = recipeSteps (appState s)"
    by simp_all
  have "processAll env (m # ms) s = processAll env ms (processUserMessage env m s)"
    by (simp add: processAll_def)
  with Cons.IH [OF step] Cons.prems(2) same show ?case by simp
qed

text \<open>
  C8. Let the step index of a session be in range: at least zero and less than the step
  count. After any run of the commands "next" and "previous" it is still in range and
  the step count is the same. One command moves the index by one, except that "next" on
  the last step and "previous" on the first step leave it where it is. Completing the
  current step keeps the index in range too.
\<close>

theorem currentStep_in_range:
  assumes "stepInRange (appState s)"
    and "\<forall>m \<in> set messages. m = ''next'' \<or> m = ''previous''"
  shows "0 \<le> currentStep (appState (processAll env messages s))
       \<and> currentStep (appState (processAll env messages s))
           < totalSteps (appState (processAll env messages s))
       \<and> totalSteps (appState (processAll env messages s)) = totalSteps (appState s)
       \<and> currentStep (appState (processUserMessage env ''next'' s))
           = (if currentStep (appState s) = totalSteps (appState s) - 1
              then currentStep (appState s) else currentStep (appState s) + 1)
       \<and> currentStep (appState (processUserMessage env ''previous'' s))
           = (if currentStep (appState s) = 0 then 0 else currentStep (appState s) - 1)
       \<and> stepInRange (completeCurrentStep (appState s))"
proof -
  from stepInRange_processAll [OF assms, of env]
  have run: "stepInRange (appState (processAll env messages s))"
    and same: "recipeSteps (appState (processAll env messages s)) = recipeSteps (appState s)"
    by simp_all
  from run have "0 \<le> currentStep (appState (processAll env messages s))"
    and "currentStep (appState (processAll env messages s))
           < totalSteps (appState (processAll env messages s))"
    by (simp_all add: stepInRange_def)
  moreover from same
  have "totalSteps (appState (processAll env messages s)) = totalSteps (appState s)"
    by (simp add: totalSteps_def)
  moreover from assms(1)
  have "currentStep (appState (processUserMessage env ''next'' s))
           = (if currentStep (appState s) = totalSteps (appState s) - 1
              then currentStep (appState s) else currentStep (appState s) + 1)"
    by (auto simp: processUserMessage_next nextStep_index stepInRange_def)
  moreover from assms(1)
  have "currentStep (appState (processUserMessage env ''previous'' s))
           = (if currentStep (appState s) = 0 then 0 else currentStep (appState s) - 1)"
    by (auto simp: processUserMessage_previous prevStep_index stepInRange_def)
  moreover from assms(1) have "stepInRange (completeCurrentStep (appState s))"
    by (auto simp: completeCurrentStep_def AppState_nextStep_def stepInRange_def totalSteps_def)
  ultimately show ?thesis by blast
qed

theorem currentStep_in_range_witness:
  "stepInRange (appState pulaoSession)
   \<and> 0 \<le> currentStep (appState (processAll quietSurroundings
                                      [''previous'', ''next'', ''next'', ''previous''] pulaoSession))
   \<and> currentStep (appState (processAll quietSurroundings
                                [''previous'', ''next'', ''next'', ''previous''] pulaoSession))
       < totalSteps (appState pulaoSession)
   \<and> totalSteps (appState pulaoSession) = 7
   \<and> currentStep (appState (processUserMessage quietSurroundings ''previous'' pulaoSession)) = 0
   \<and> currentStep (appState (processUserMessage quietSurroundings ''next'' pulaoSession)) = 1"
proof -
  have total: "totalSteps (appState pulaoSession) = 7"
    and index: "currentStep (appState pulaoSession) = 0"
    by (simp_all add: pulaoSession_def totalSteps_def getDefaultRecipe_def)
  then have inRange: "stepInRange (appState pulaoSession)"
    by (simp add: stepInRange_def)
  have cmds: "\<forall>m \<in> set [''previous'', ''next'', ''next'', ''previous''].
                m = ''next'' \<or> m = ''previous''"
    by simp
  note r = currentStep_in_range [OF inRange cmds, of quietSurroundings]
  from r have a: "0 \<le> currentStep (appState (processAll quietSurroundings
                                      [''previous'', ''next'', ''next'', ''previous''] pulaoSession))"
    by blast
  from r total have b: "currentStep (appState (processAll quietSurroundings
                                [''previous'', ''next'', ''next'', ''previous''] pulaoSession))
       < totalSteps (appState pulaoSession)"
    by simp
  from r index have c:
    "currentStep (appState (processUserMessage quietSurroundings ''previous'' pulaoSession)) = 0"
    by simp
  from r index total have d:
    "currentStep (appState (processUserMessage quietSurroundings ''next'' pulaoSession)) = 1"
    by simp
  from inRange a b total c d show ?thesis by blast
qed

end
